theory Spec2Isabelle
  imports Main "HOL-Library.Multiset"
begin

section \<open>Cards and decks\<close>

text \<open>
  The engine is a JavaScript rules engine for blackjack. Suits and ranks are the string
  literals of the \<^verbatim>\<open>Deck\<close> constructor, the only place that creates cards; they are
  modelled as enumerations. A card carries the id that \<^verbatim>\<open>Card._nextId++\<close> gave it.
\<close>

datatype suit = Spades | Clubs | Hearts | Diamonds

datatype rank = Ace | Two | Three | Four | Five | Six | Seven | Eight | Nine | Ten
  | Jack | Queen | King

datatype color = Red | Black

record card =
  suit :: suit
  rank :: rank
  color :: color
  card_id :: nat

text \<open>
  \<^verbatim>\<open>new Card(suit, rank)\<close>: the second argument and result component is the process-wide
  counter \<^verbatim>\<open>Card._nextId\<close>, which the constructor reads and increments.
\<close>

definition Card_new :: "suit \<Rightarrow> rank \<Rightarrow> nat \<Rightarrow> card \<times> nat" where
  "Card_new s r n =
     (\<lparr>suit = s, rank = r,
       color = (if s = Hearts \<or> s = Diamonds then Red else Black),
       card_id = n\<rparr>, n + 1)"

text \<open>
  \<^verbatim>\<open>parseInt(this.rank)\<close> on the numeral ranks. \<^verbatim>\<open>getValue\<close> answers for the
  Ace and the face cards before it reaches \<^verbatim>\<open>parseInt\<close>, so the last equation is
  never used.
\<close>

fun parseInt :: "rank \<Rightarrow> int" where
  "parseInt Two = 2"
| "parseInt Three = 3"
| "parseInt Four = 4"
| "parseInt Five = 5"
| "parseInt Six = 6"
| "parseInt Seven = 7"
| "parseInt Eight = 8"
| "parseInt Nine = 9"
| "parseInt Ten = 10"
| "parseInt r = 0"

definition getValue :: "card \<Rightarrow> int" where
  "getValue c =
     (if rank c \<in> {Jack, Queen, King} then 10
      else if rank c = Ace then 11
      else parseInt (rank c))"

definition suits :: "suit list" where
  "suits = [Spades, Clubs, Hearts, Diamonds]"

definition ranks :: "rank list" where
  "ranks = [Ace, Two, Three, Four, Five, Six, Seven, Eight, Nine, Ten, Jack, Queen, King]"

text \<open>
  \<^verbatim>\<open>new Deck()\<close>: the two nested \<^verbatim>\<open>for\<close> loops push one new card per suit and rank.
  The loop state is the array built so far and the id counter.
\<close>

definition Deck_push :: "suit \<Rightarrow> rank \<Rightarrow> card list \<times> nat \<Rightarrow> card list \<times> nat" where
  "Deck_push s r st = (case st of (cs, n) \<Rightarrow> (case Card_new s r n of (c, n') \<Rightarrow> (cs @ [c], n')))"

definition Deck_new :: "nat \<Rightarrow> card list \<times> nat" where
  "Deck_new n = fold (\<lambda>s. fold (\<lambda>r. Deck_push s r) ranks) suits ([], n)"

section \<open>The shoe\<close>

text \<open>
  The fields of \<^verbatim>\<open>Shoe\<close>, then the ambient state its methods read and write:
  \<open>nextId\<close> is \<^verbatim>\<open>Card._nextId\<close>; \<open>random\<close> and \<open>randomPos\<close> stand for
  \<^verbatim>\<open>Math.random\<close> (the k-th call yields \<open>random k\<close>, reduced to the range the caller
  asks for); \<open>hookCalls\<close> counts the invocations of the \<^verbatim>\<open>onEndOfShoe\<close> callback and
  \<open>defaultNotices\<close> the runs of the default \<^verbatim>\<open>console.log\<close>/\<^verbatim>\<open>alert\<close> branch.
  \<open>onEndOfShoe\<close> records whether \<^verbatim>\<open>typeof this.onEndOfShoe === 'function'\<close>.
  \<open>currentRoundDealt\<close> is \<open>None\<close> while the field is undefined or null.
  The top of the shoe is the end of the array (\<^verbatim>\<open>pop\<close>, \<^verbatim>\<open>push\<close>).
\<close>

record shoe =
  cards :: "card list"
  discardPile :: "card list"
  numberOfDecks :: nat
  onEndOfShoe :: bool
  endAlerted :: bool
  currentRoundDealt :: "nat set option"
  nextId :: nat
  random :: "nat \<Rightarrow> nat"
  randomPos :: nat
  hookCalls :: nat
  defaultNotices :: nat

definition startRound :: "shoe \<Rightarrow> shoe" where
  "startRound s = s\<lparr>currentRoundDealt := Some {}\<rparr>"

definition endRound :: "shoe \<Rightarrow> shoe" where
  "endRound s = s\<lparr>currentRoundDealt := None\<rparr>"

text \<open>
  \<^verbatim>\<open>shuffle\<close>: \<^verbatim>\<open>for (i = length - 1; i > 0; i--)\<close> with
  \<^verbatim>\<open>j = Math.floor(Math.random() * (i + 1))\<close> and a swap of positions i and j.
  The first argument is i; the loop stops at 0.
\<close>

fun shuffle_loop :: "nat \<Rightarrow> (nat \<Rightarrow> nat) \<Rightarrow> nat \<Rightarrow> card list \<Rightarrow> card list \<times> nat" where
  "shuffle_loop 0 r p cs = (cs, p)"
| "shuffle_loop (Suc k) r p cs =
     (let i = Suc k; j = r p mod (i + 1)
      in shuffle_loop k r (p + 1) (cs[i := cs ! j, j := cs ! i]))"

definition shuffle :: "shoe \<Rightarrow> shoe" where
  "shuffle s =
     (case shuffle_loop (length (cards s) - 1) (random s) (randomPos s) (cards s) of
        (cs, p) \<Rightarrow> s\<lparr>cards := cs, randomPos := p\<rparr>)"

text \<open>
  \<^verbatim>\<open>initializeShoe\<close>: one new deck per iteration, appended to the array; then the
  shuffle and the reset of the alert flag. The first argument of the loop is the number
  of decks still to add.
\<close>

fun initializeShoe_loop :: "nat \<Rightarrow> card list \<Rightarrow> nat \<Rightarrow> card list \<times> nat" where
  "initializeShoe_loop 0 cs n = (cs, n)"
| "initializeShoe_loop (Suc k) cs n =
     (case Deck_new n of (d, n') \<Rightarrow> initializeShoe_loop k (cs @ d) n')"

definition initializeShoe :: "shoe \<Rightarrow> shoe" where
  "initializeShoe s =
     (case initializeShoe_loop (numberOfDecks s) [] (nextId s) of
        (cs, n) \<Rightarrow> (shuffle (s\<lparr>cards := cs, nextId := n\<rparr>))\<lparr>endAlerted := False\<rparr>)"

text \<open>
  \<^verbatim>\<open>new Shoe(numberOfDecks)\<close>, in a process whose id counter is at \<open>n0\<close> and whose
  random source is \<open>rnd\<close>.
\<close>

definition Shoe_new :: "nat \<Rightarrow> nat \<Rightarrow> (nat \<Rightarrow> nat) \<Rightarrow> shoe" where
  "Shoe_new d n0 rnd =
     initializeShoe
       \<lparr>cards = [], discardPile = [], numberOfDecks = d, onEndOfShoe = False,
        endAlerted = False, currentRoundDealt = None, nextId = n0, random = rnd,
        randomPos = 0, hookCalls = 0, defaultNotices = 0\<rparr>"

text \<open>
  The refill that \<^verbatim>\<open>deal\<close> performs when \<open>cards\<close> is empty. The source writes it twice,
  with the two branches in either order; both copies do the same.
\<close>

definition refill :: "shoe \<Rightarrow> shoe" where
  "refill s =
     (if length (discardPile s) = 0 then initializeShoe s
      else shuffle (s\<lparr>cards := discardPile s, discardPile := []\<rparr>))"

text \<open>
  The \<^verbatim>\<open>while\<close> loop of \<^verbatim>\<open>deal\<close>. The result is \<open>Some card\<close> when the loop returns a
  card from inside, and \<open>None\<close> when the loop ends without returning.
\<close>

function deal_loop :: "shoe \<Rightarrow> nat \<Rightarrow> nat \<Rightarrow> card option \<times> shoe" where
  "deal_loop s maxAttempts attempts =
     (if length (cards s) > 0 \<and> attempts < maxAttempts then
        (let c = last (cards s);
             s1 = s\<lparr>cards := butlast (cards s)\<rparr>
         in case currentRoundDealt s1 of
              None \<Rightarrow> (Some c, s1)
            | Some dealt \<Rightarrow>
                if card_id c \<notin> dealt
                then (Some c, s1\<lparr>currentRoundDealt := Some (insert (card_id c) dealt)\<rparr>)
                else deal_loop (s1\<lparr>discardPile := discardPile s1 @ [c]\<rparr>)
                       maxAttempts (attempts + 1))
      else (None, s))"
  by pat_completeness auto
termination
  by (relation "measure (\<lambda>(s, m, a). length (cards s))") auto

declare deal_loop.simps [simp del]

text \<open>The end-of-shoe notification at the end of \<^verbatim>\<open>deal\<close>.\<close>

definition notify :: "nat \<Rightarrow> shoe \<Rightarrow> shoe" where
  "notify initialAvailable s =
     (if initialAvailable = 1 \<and> \<not> endAlerted s then
        (let s1 = s\<lparr>endAlerted := True\<rparr>
         in if onEndOfShoe s1 then s1\<lparr>hookCalls := hookCalls s1 + 1\<rparr>
            else s1\<lparr>defaultNotices := defaultNotices s1 + 1\<rparr>)
      else s)"

text \<open>
  \<^verbatim>\<open>deal\<close>. The result is \<open>None\<close> where the source returns \<^verbatim>\<open>undefined\<close> (the
  \<^verbatim>\<open>pop\<close> of an empty array).
\<close>

definition deal :: "shoe \<Rightarrow> card option \<times> shoe" where
  "deal s =
     (let s0 = (if length (cards s) = 0 then refill s else s);
          maxAttempts = max 10 (length (cards s0) + 5);
          initialAvailable = length (cards s0)
      in case deal_loop s0 maxAttempts 0 of
           (Some c, s1) \<Rightarrow> (Some c, s1)
         | (None, s1) \<Rightarrow>
             (let s2 = (if length (cards s1) = 0 then refill s1 else s1);
                  fallback = (if cards s2 = [] then None else Some (last (cards s2)));
                  s3 = s2\<lparr>cards := butlast (cards s2)\<rparr>;
                  s4 = (case (currentRoundDealt s3, fallback) of
                          (Some dealt, Some c) \<Rightarrow>
                            s3\<lparr>currentRoundDealt := Some (insert (card_id c) dealt)\<rparr>
                        | _ \<Rightarrow> s3)
              in (fallback, notify initialAvailable s4)))"

text \<open>\<^verbatim>\<open>addToDiscardPile\<close> takes one card or an array of cards.\<close>

datatype discard_arg = One card | Many "card list"

fun addToDiscardPile :: "discard_arg \<Rightarrow> shoe \<Rightarrow> shoe" where
  "addToDiscardPile (Many cs) s = s\<lparr>discardPile := discardPile s @ cs\<rparr>"
| "addToDiscardPile (One c) s = s\<lparr>discardPile := discardPile s @ [c]\<rparr>"

text \<open>\<open>deal_n n\<close> calls \<^verbatim>\<open>deal\<close> n times and collects the results in order.\<close>

fun deal_n :: "nat \<Rightarrow> shoe \<Rightarrow> card option list \<times> shoe" where
  "deal_n 0 s = ([], s)"
| "deal_n (Suc n) s =
     (case deal s of (c, s1) \<Rightarrow> (case deal_n n s1 of (cs, s2) \<Rightarrow> (c # cs, s2)))"

section \<open>Hands\<close>

text \<open>
  \<^verbatim>\<open>originalBet\<close> and \<^verbatim>\<open>doubled\<close> are not set by the constructor: \<open>None\<close> is
  \<^verbatim>\<open>undefined\<close>. Bets are chip counts.
\<close>

record hand =
  hand_cards :: "card list"
  bet :: int
  originalBet :: "int option"
  hasStood :: bool
  hasSurrendered :: bool
  doubled :: "bool option"
  isSplit :: bool

definition Hand_new :: hand where
  "Hand_new =
     \<lparr>hand_cards = [], bet = 0, originalBet = None, hasStood = False,
      hasSurrendered = False, doubled = None, isSplit = False\<rparr>"

definition addCard :: "card \<Rightarrow> hand \<Rightarrow> hand" where
  "addCard c h = h\<lparr>hand_cards := hand_cards h @ [c]\<rparr>"

text \<open>The \<^verbatim>\<open>for\<close> loop of \<^verbatim>\<open>getScore\<close>, on the pair (score, aces).\<close>

definition getScore_step :: "card \<Rightarrow> int \<times> nat \<Rightarrow> int \<times> nat" where
  "getScore_step c st =
     (case st of (score, aces) \<Rightarrow>
        if rank c = Ace then (score + 11, aces + 1) else (score + getValue c, aces))"

text \<open>The \<^verbatim>\<open>while (score > 21 && aces > 0)\<close> loop of \<^verbatim>\<open>getScore\<close>.\<close>

function getScore_while :: "int \<Rightarrow> nat \<Rightarrow> int" where
  "getScore_while score aces =
     (if score > 21 \<and> aces > 0 then getScore_while (score - 10) (aces - 1) else score)"
  by pat_completeness auto
termination
  by (relation "measure (\<lambda>(score, aces). aces)") auto

declare getScore_while.simps [simp del]

definition getScore :: "hand \<Rightarrow> int" where
  "getScore h = (case fold getScore_step (hand_cards h) (0, 0) of
                   (score, aces) \<Rightarrow> getScore_while score aces)"

definition isBusted :: "hand \<Rightarrow> bool" where
  "isBusted h = (getScore h > 21)"

definition isBlackjack :: "hand \<Rightarrow> bool" where
  "isBlackjack h = (length (hand_cards h) = 2 \<and> getScore h = 21)"

text \<open>
  The scoring rule in the words of the specification: every Ace counts 11, and the total
  is reduced by 10 once per Ace while it exceeds 21 and an Ace not yet reduced remains.
  The second argument of \<open>reduce_aces\<close> is the number of such Aces.
\<close>

fun reduce_aces :: "int \<Rightarrow> nat \<Rightarrow> int" where
  "reduce_aces t 0 = t"
| "reduce_aces t (Suc n) = (if t > 21 then reduce_aces (t - 10) n else t)"

definition score_spec :: "card list \<Rightarrow> int" where
  "score_spec cs =
     reduce_aces (sum_list (map getValue cs)) (length (filter (\<lambda>c. rank c = Ace) cs))"

section \<open>The game controller\<close>

text \<open>
  A method that can throw returns the outcome together with the state at the moment of
  the return or of the throw, so that whatever the method wrote before throwing stays
  visible. \<open>Error msg\<close> is \<^verbatim>\<open>throw new Error(msg)\<close>; \<open>TypeError\<close> is the
  engine's own failure on a property read of \<^verbatim>\<open>undefined\<close> (a hand index outside
  \<open>playerHands\<close>). A hand index is a natural number: the callers pass
  \<^verbatim>\<open>currentHandIndex\<close> (the default argument) or a position of \<open>playerHands\<close>.
  \<open>UndefinedCard\<close> marks the one place where the model stops short of the source: \<^verbatim>\<open>deal\<close> has returned \<^verbatim>\<open>undefined\<close> (possible on a shoe of zero decks
  only), which the source would store in the hand as it is; hands of the model hold
  cards only.
\<close>

datatype exn = Error string | TypeError | UndefinedCard

datatype 'a outcome = Returned 'a | Threw exn

record game =
  shoe :: shoe
  standOnSoft17 :: bool
  allowSurrender :: bool
  dealerHand :: hand
  playerHands :: "hand list"
  currentHandIndex :: nat
  game_numberOfDecks :: nat
  chips :: int

text \<open>\<^verbatim>\<open>new Blackjack(numberOfDecks, standOnSoft17, allowSurrender, startingChips)\<close>.\<close>

definition Blackjack_new :: "nat \<Rightarrow> bool \<Rightarrow> bool \<Rightarrow> int \<Rightarrow> nat \<Rightarrow> (nat \<Rightarrow> nat) \<Rightarrow> game" where
  "Blackjack_new d s17 sur startingChips n0 rnd =
     \<lparr>shoe = Shoe_new d n0 rnd, standOnSoft17 = s17, allowSurrender = sur,
      dealerHand = Hand_new, playerHands = [Hand_new], currentHandIndex = 0,
      game_numberOfDecks = d, chips = startingChips\<rparr>"

definition endHand :: "nat \<Rightarrow> game \<Rightarrow> game" where
  "endHand handIndex g =
     (if handIndex < length (playerHands g) - 1
      then g\<lparr>currentHandIndex := handIndex + 1\<rparr>
      else g)"

text \<open>
  \<^verbatim>\<open>hit\<close>: the card is taken from the shoe before the hand is touched, so a hand index
  out of range throws with the shoe already changed.
\<close>

definition hit :: "nat \<Rightarrow> game \<Rightarrow> card outcome \<times> game" where
  "hit handIndex g =
     (case deal (shoe g) of (co, sh) \<Rightarrow>
        (let g1 = g\<lparr>shoe := sh\<rparr>
         in if \<not> handIndex < length (playerHands g1) then (Threw TypeError, g1)
            else case co of
                   None \<Rightarrow> (Threw UndefinedCard, g1)
                 | Some c \<Rightarrow>
                     (let h = addCard c (playerHands g1 ! handIndex);
                          g2 = g1\<lparr>playerHands := (playerHands g1)[handIndex := h]\<rparr>
                      in if isBusted h then (Returned c, endHand handIndex g2)
                         else (Returned c, g2))))"

definition stand :: "nat \<Rightarrow> game \<Rightarrow> unit outcome \<times> game" where
  "stand handIndex g =
     (if \<not> handIndex < length (playerHands g) then (Threw TypeError, g)
      else
        (let h = (playerHands g ! handIndex)\<lparr>hasStood := True\<rparr>;
             g1 = g\<lparr>playerHands := (playerHands g)[handIndex := h]\<rparr>
         in (Returned (), endHand handIndex g1)))"

definition surrender :: "nat \<Rightarrow> game \<Rightarrow> unit outcome \<times> game" where
  "surrender handIndex g =
     (if \<not> allowSurrender g
      then (Threw (Error ''Surrender is not allowed in current game settings''), g)
      else if \<not> handIndex < length (playerHands g) then (Threw TypeError, g)
      else if length (hand_cards (playerHands g ! handIndex)) > 2
      then (Threw (Error ''Can only surrender on initial hand''), g)
      else
        (let h = (playerHands g ! handIndex)\<lparr>hasSurrendered := True\<rparr>;
             g1 = g\<lparr>playerHands := (playerHands g)[handIndex := h]\<rparr>
         in (Returned (), endHand handIndex g1)))"

text \<open>
  JavaScript truthiness of \<^verbatim>\<open>hand.originalBet\<close>: undefined and 0 are falsy.
\<close>

definition truthy :: "int option \<Rightarrow> bool" where
  "truthy v = (case v of None \<Rightarrow> False | Some n \<Rightarrow> n \<noteq> 0)"

definition double :: "nat \<Rightarrow> game \<Rightarrow> unit outcome \<times> game" where
  "double handIndex g =
     (if \<not> handIndex < length (playerHands g) then (Threw TypeError, g)
      else
        (let h = playerHands g ! handIndex
         in if length (hand_cards h) \<noteq> 2
            then (Threw (Error ''Can only double down on initial hand''), g)
            else
              (let h1 = (if \<not> truthy (originalBet h) then h\<lparr>originalBet := Some (bet h)\<rparr> else h);
                   h2 = h1\<lparr>doubled := Some True, bet := bet h1 * 2\<rparr>;
                   g1 = g\<lparr>playerHands := (playerHands g)[handIndex := h2]\<rparr>
               in case hit handIndex g1 of
                    (Threw e, g2) \<Rightarrow> (Threw e, g2)
                  | (Returned c, g2) \<Rightarrow>
                      if \<not> isBusted (playerHands g2 ! handIndex) then stand handIndex g2
                      else (Returned (), g2))))"

text \<open>
  \<^verbatim>\<open>split\<close>: \<^verbatim>\<open>hand.originalBet || hand.bet\<close> is the original bet when truthy and the
  bet otherwise; \<^verbatim>\<open>splice(handIndex + 1, 0, newHand)\<close> inserts after the source hand.
\<close>

definition split :: "nat \<Rightarrow> game \<Rightarrow> unit outcome \<times> game" where
  "split handIndex g =
     (if \<not> handIndex < length (playerHands g) then (Threw TypeError, g)
      else
        (let h = playerHands g ! handIndex
         in if length (hand_cards h) \<noteq> 2
               \<or> getValue (hand_cards h ! 0) \<noteq> getValue (hand_cards h ! 1)
            then (Threw (Error ''Can only split identical value cards''), g)
            else
              (let n0 = Hand_new\<lparr>bet := bet h,
                                 originalBet := (if truthy (originalBet h) then originalBet h
                                                 else Some (bet h)),
                                 doubled := Some False,
                                 isSplit := True\<rparr>;
                   h1 = h\<lparr>isSplit := True\<rparr>;
                   n1 = addCard (last (hand_cards h1)) n0;
                   h2 = h1\<lparr>hand_cards := butlast (hand_cards h1)\<rparr>;
                   g1 = g\<lparr>playerHands := (playerHands g)[handIndex := h2]\<rparr>
               in case deal (shoe g1) of
                    (None, sh1) \<Rightarrow> (Threw UndefinedCard, g1\<lparr>shoe := sh1\<rparr>)
                  | (Some c1, sh1) \<Rightarrow>
                      (let n2 = addCard c1 n1
                       in case deal sh1 of
                            (None, sh2) \<Rightarrow> (Threw UndefinedCard, g1\<lparr>shoe := sh2\<rparr>)
                          | (Some c2, sh2) \<Rightarrow>
                              (let h3 = addCard c2 h2;
                                   hs = (playerHands g1)[handIndex := h3]
                               in (Returned (),
                                   g1\<lparr>shoe := sh2,
                                      playerHands := take (handIndex + 1) hs @ [n2]
                                                       @ drop (handIndex + 1) hs\<rparr>))))))"

definition dealerPlay :: "game \<Rightarrow> card outcome \<times> game" where
  "dealerPlay g =
     (case deal (shoe g) of
        (None, sh) \<Rightarrow> (Threw UndefinedCard, g\<lparr>shoe := sh\<rparr>)
      | (Some c, sh) \<Rightarrow> (Returned c, g\<lparr>shoe := sh, dealerHand := addCard c (dealerHand g)\<rparr>))"

text \<open>The \<^verbatim>\<open>for\<close> loop of \<^verbatim>\<open>shouldDealerHit\<close>, on the pair (hardScore, aces).\<close>

definition soft_step :: "card \<Rightarrow> int \<times> nat \<Rightarrow> int \<times> nat" where
  "soft_step c st =
     (case st of (hardScore, aces) \<Rightarrow>
        if rank c = Ace then (hardScore, aces + 1) else (hardScore + getValue c, aces))"

definition shouldDealerHit :: "game \<Rightarrow> bool" where
  "shouldDealerHit g =
     (let score = getScore (dealerHand g)
      in if score < 17 then True
         else if score = 17 then
           (case fold soft_step (hand_cards (dealerHand g)) (0, 0) of
              (hardScore, aces) \<Rightarrow>
                (let isSoft17 = (aces > 0 \<and> hardScore \<le> 6)
                 in isSoft17 \<and> \<not> standOnSoft17 g))
         else False)"

text \<open>
  A soft hand in the words of the specification: it contains at least one Ace and its
  other cards sum to at most 6.
\<close>

definition soft :: "card list \<Rightarrow> bool" where
  "soft cs = ((\<exists>c \<in> set cs. rank c = Ace)
              \<and> sum_list (map getValue (filter (\<lambda>c. rank c \<noteq> Ace) cs)) \<le> 6)"

definition settleAllHands :: "game \<Rightarrow> game" where
  "settleAllHands g =
     (let sh1 = addToDiscardPile (Many (hand_cards (dealerHand g))) (shoe g);
          sh2 = fold (\<lambda>h. addToDiscardPile (Many (hand_cards h))) (playerHands g) sh1;
          sh3 = endRound sh2
      in g\<lparr>shoe := sh3, dealerHand := Hand_new, playerHands := [Hand_new],
           currentHandIndex := 0\<rparr>)"

text \<open>
  The cards held by the hands, and the three pools of the card-conservation invariant:
  shoe, discard pile and hands.
\<close>

definition held :: "game \<Rightarrow> card list" where
  "held g = hand_cards (dealerHand g) @ concat (map hand_cards (playerHands g))"

definition pools :: "game \<Rightarrow> card list" where
  "pools g = cards (shoe g) @ discardPile (shoe g) @ held g"

definition conserved :: "game \<Rightarrow> bool" where
  "conserved g =
     (length (pools g) = 52 * numberOfDecks (shoe g) \<and> distinct (map card_id (pools g)))"

text \<open>
  \<^verbatim>\<open>addToDiscardPile\<close> appends what it is given and leaves the hands alone; a driver
  that retires cards before the settlement takes them out of the hands it passes on, as
  \<^verbatim>\<open>settleAllHands\<close> does when it replaces the hands. \<open>retire P h\<close> is hand \<open>h\<close>
  without the cards that satisfy \<open>P\<close>. \<open>discardHeld ids\<close> retires the held cards whose
  ids are listed and passes them as one array; \<open>discardHeldCard n\<close> retires the held
  card of id \<open>n\<close> and passes it as a single card, when exactly one card has that id,
  and does nothing otherwise.
\<close>

definition retire :: "(card \<Rightarrow> bool) \<Rightarrow> hand \<Rightarrow> hand" where
  "retire P h = h\<lparr>hand_cards := filter (\<lambda>c. \<not> P c) (hand_cards h)\<rparr>"

definition discardHeld :: "nat list \<Rightarrow> game \<Rightarrow> game" where
  "discardHeld ids g =
     (let P = (\<lambda>c. card_id c \<in> set ids)
      in g\<lparr>shoe := addToDiscardPile (Many (filter P (held g))) (shoe g),
           dealerHand := retire P (dealerHand g),
           playerHands := map (retire P) (playerHands g)\<rparr>)"

definition discardHeldCard :: "nat \<Rightarrow> game \<Rightarrow> game" where
  "discardHeldCard n g =
     (let P = (\<lambda>c. card_id c = n)
      in case filter P (held g) of
           [c] \<Rightarrow> g\<lparr>shoe := addToDiscardPile (One c) (shoe g),
                     dealerHand := retire P (dealerHand g),
                     playerHands := map (retire P) (playerHands g)\<rparr>
         | _ \<Rightarrow> g)"

text \<open>
  Sequences of operations on one game: the two round markers of the shoe, a card dealt
  from the shoe to the dealer (\<^verbatim>\<open>dealerPlay\<close>) or to a player hand (\<^verbatim>\<open>hit\<close>),
  \<^verbatim>\<open>addToDiscardPile\<close> on retired cards (an array or one card), at any moment of a
  round, and the settlement.
\<close>

datatype op = StartRound | EndRound | DealerPlay | Hit nat
  | AddToDiscardPile "nat list" | AddCardToDiscardPile nat | SettleAllHands

fun step :: "game \<Rightarrow> op \<Rightarrow> game" where
  "step g StartRound = g\<lparr>shoe := startRound (shoe g)\<rparr>"
| "step g EndRound = g\<lparr>shoe := endRound (shoe g)\<rparr>"
| "step g DealerPlay = snd (dealerPlay g)"
| "step g (Hit i) = snd (hit i g)"
| "step g (AddToDiscardPile ids) = discardHeld ids g"
| "step g (AddCardToDiscardPile n) = discardHeldCard n g"
| "step g SettleAllHands = settleAllHands g"

fun run :: "game \<Rightarrow> op list \<Rightarrow> game" where
  "run g [] = g"
| "run g (x # xs) = run (step g x) xs"

text \<open>
  \<open>supplied g x\<close>: operation \<open>x\<close> does not ask an exhausted shoe (no card in the shoe
  and none in the discard pile) for a card, and names an existing hand.
\<close>

fun supplied :: "game \<Rightarrow> op \<Rightarrow> bool" where
  "supplied g DealerPlay = (cards (shoe g) \<noteq> [] \<or> discardPile (shoe g) \<noteq> [])"
| "supplied g (Hit i) =
     (i < length (playerHands g) \<and> (cards (shoe g) \<noteq> [] \<or> discardPile (shoe g) \<noteq> []))"
| "supplied g x = True"

fun run_supplied :: "game \<Rightarrow> op list \<Rightarrow> bool" where
  "run_supplied g [] = True"
| "run_supplied g (x # xs) = (supplied g x \<and> run_supplied (step g x) xs)"

text \<open>
  Sample hands and a sample table, for the instances at which the theorems below are
  exercised: a one-deck game whose player hands are laid out as given.
\<close>

abbreviation pair_of_eights :: hand where
  "pair_of_eights \<equiv>
     Hand_new\<lparr>hand_cards := [fst (Card_new Spades Eight 101), fst (Card_new Clubs Eight 102)],
              bet := 10, originalBet := Some 10\<rparr>"

abbreviation eight_nine :: hand where
  "eight_nine \<equiv>
     Hand_new\<lparr>hand_cards := [fst (Card_new Spades Eight 101), fst (Card_new Clubs Nine 103)],
              bet := 10, originalBet := Some 10\<rparr>"

abbreviation three_sevens :: hand where
  "three_sevens \<equiv>
     Hand_new\<lparr>hand_cards := [fst (Card_new Spades Seven 104), fst (Card_new Clubs Seven 105),
                             fst (Card_new Hearts Seven 106)],
              bet := 10, originalBet := Some 10\<rparr>"

abbreviation table :: "bool \<Rightarrow> hand list \<Rightarrow> game" where
  "table sur hs \<equiv> (Blackjack_new 1 True sur 1000 1 id)\<lparr>playerHands := hs\<rparr>"

section \<open>Scoring\<close>

lemma getValue_Ace: "rank c = Ace \<Longrightarrow> getValue c = 11"
  by (simp add: getValue_def)

lemma fold_getScore_step:
  "fold getScore_step cs (s, a) =
     (s + sum_list (map getValue cs), a + length (filter (\<lambda>c. rank c = Ace) cs))"
  by (induction cs arbitrary: s a) (simp_all add: getScore_step_def getValue_Ace)

lemma getScore_while_reduce: "getScore_while s a = reduce_aces s a"
proof (induction a arbitrary: s)
  case 0
  show ?case by (subst getScore_while.simps) simp
next
  case (Suc a)
  show ?case using Suc.IH [of "s - 10"] by (subst getScore_while.simps) simp
qed

lemma getScore_spec: "getScore h = score_spec (hand_cards h)"
  by (simp add: getScore_def score_spec_def fold_getScore_step getScore_while_reduce)

lemma fold_soft_step:
  "fold soft_step cs (s, a) =
     (s + sum_list (map getValue (filter (\<lambda>c. rank c \<noteq> Ace) cs)),
      a + length (filter (\<lambda>c. rank c = Ace) cs))"
  by (induction cs arbitrary: s a) (simp_all add: soft_step_def)

text \<open>
  C5. The score that \<^verbatim>\<open>getScore\<close> computes with its two loops is the score of the
  specification: the sum of the card values with every Ace at 11, reduced by 10 once per
  Ace while the total exceeds 21 and an Ace not yet reduced remains. Whatever the suits
  and ids, Ace-Ace scores 12, Ace-King 21, Ace-Ace-Nine 21 and Seven-Seven-Seven 21.
\<close>

theorem getScore_refines_spec:
  "getScore h = score_spec (hand_cards h)
   \<and> getScore (h\<lparr>hand_cards := [c1\<lparr>rank := Ace\<rparr>, c2\<lparr>rank := Ace\<rparr>]\<rparr>) = 12
   \<and> getScore (h\<lparr>hand_cards := [c1\<lparr>rank := Ace\<rparr>, c2\<lparr>rank := King\<rparr>]\<rparr>) = 21
   \<and> getScore (h\<lparr>hand_cards := [c1\<lparr>rank := Ace\<rparr>, c2\<lparr>rank := Ace\<rparr>, c3\<lparr>rank := Nine\<rparr>]\<rparr>) = 21
   \<and> getScore (h\<lparr>hand_cards := [c1\<lparr>rank := Seven\<rparr>, c2\<lparr>rank := Seven\<rparr>, c3\<lparr>rank := Seven\<rparr>]\<rparr>) = 21"
  by (simp add: getScore_spec score_spec_def getValue_def)

theorem getScore_refines_spec_witness:
  "getScore pair_of_eights = score_spec (hand_cards pair_of_eights)
   \<and> getScore pair_of_eights = 16"
  using getScore_refines_spec [of pair_of_eights]
  by (simp add: score_spec_def getValue_def Card_new_def Hand_new_def)

text \<open>
  C6. \<^verbatim>\<open>isBlackjack\<close> holds exactly for a hand of two cards that scores 21; a hand of
  more than two cards is never a blackjack, and Seven-Seven-Seven scores 21 without
  being one.
\<close>

theorem isBlackjack_iff:
  "(isBlackjack h \<longleftrightarrow> length (hand_cards h) = 2 \<and> getScore h = 21)
   \<and> (length (hand_cards h) > 2 \<longrightarrow> \<not> isBlackjack h)
   \<and> getScore (h\<lparr>hand_cards := [c1\<lparr>rank := Seven\<rparr>, c2\<lparr>rank := Seven\<rparr>, c3\<lparr>rank := Seven\<rparr>]\<rparr>) = 21
   \<and> \<not> isBlackjack (h\<lparr>hand_cards := [c1\<lparr>rank := Seven\<rparr>, c2\<lparr>rank := Seven\<rparr>, c3\<lparr>rank := Seven\<rparr>]\<rparr>)"
  by (simp add: isBlackjack_def getScore_spec score_spec_def getValue_def)

theorem isBlackjack_iff_witness:
  "2 < length (hand_cards (Hand_new\<lparr>hand_cards :=
         [fst (Card_new Spades Seven 1), fst (Card_new Clubs Seven 2),
          fst (Card_new Hearts Seven 3)]\<rparr>))
   \<and> \<not> isBlackjack (Hand_new\<lparr>hand_cards :=
         [fst (Card_new Spades Seven 1), fst (Card_new Clubs Seven 2),
          fst (Card_new Hearts Seven 3)]\<rparr>)"
  using isBlackjack_iff [of "Hand_new\<lparr>hand_cards :=
         [fst (Card_new Spades Seven 1), fst (Card_new Clubs Seven 2),
          fst (Card_new Hearts Seven 3)]\<rparr>"]
  by simp

section \<open>Dealer policy\<close>

text \<open>
  C4. \<^verbatim>\<open>shouldDealerHit\<close> is true when the dealer's score is below 17; at exactly 17
  it is true if and only if the hand is soft and \<^verbatim>\<open>standOnSoft17\<close> is false; above 17
  it is false. For Ace-Six it is true exactly when \<^verbatim>\<open>standOnSoft17\<close> is false, and for
  Ten-Seven it is false.
\<close>

theorem shouldDealerHit_policy:
  "(getScore (dealerHand g) < 17 \<longrightarrow> shouldDealerHit g)
   \<and> (getScore (dealerHand g) = 17 \<longrightarrow>
        (shouldDealerHit g \<longleftrightarrow> soft (hand_cards (dealerHand g)) \<and> \<not> standOnSoft17 g))
   \<and> (getScore (dealerHand g) > 17 \<longrightarrow> \<not> shouldDealerHit g)
   \<and> (shouldDealerHit (g\<lparr>dealerHand := h\<lparr>hand_cards := [c1\<lparr>rank := Ace\<rparr>, c2\<lparr>rank := Six\<rparr>]\<rparr>\<rparr>)
        \<longleftrightarrow> \<not> standOnSoft17 g)
   \<and> \<not> shouldDealerHit (g\<lparr>dealerHand := h\<lparr>hand_cards := [c1\<lparr>rank := Ten\<rparr>, c2\<lparr>rank := Seven\<rparr>]\<rparr>\<rparr>)"
proof -
  have ace: "filter (\<lambda>c. rank c = Ace) cs \<noteq> [] \<longleftrightarrow> (\<exists>c \<in> set cs. rank c = Ace)"
    for cs :: "card list"
    by (simp add: filter_empty_conv)
  show ?thesis
    by (simp add: shouldDealerHit_def fold_soft_step soft_def ace soft_step_def
        getScore_spec score_spec_def getValue_def)
qed

theorem shouldDealerHit_policy_witness:
  "getScore (dealerHand ((Blackjack_new 1 False True 1000 1 id)\<lparr>dealerHand :=
       Hand_new\<lparr>hand_cards := [fst (Card_new Spades Ten 1), fst (Card_new Hearts Six 2)]\<rparr>\<rparr>)) < 17
   \<and> shouldDealerHit ((Blackjack_new 1 False True 1000 1 id)\<lparr>dealerHand :=
       Hand_new\<lparr>hand_cards := [fst (Card_new Spades Ten 1), fst (Card_new Hearts Six 2)]\<rparr>\<rparr>)
   \<and> getScore (dealerHand ((Blackjack_new 1 False True 1000 1 id)\<lparr>dealerHand :=
       Hand_new\<lparr>hand_cards := [fst (Card_new Spades Ace 1), fst (Card_new Hearts Six 2)]\<rparr>\<rparr>)) = 17
   \<and> shouldDealerHit ((Blackjack_new 1 False True 1000 1 id)\<lparr>dealerHand :=
       Hand_new\<lparr>hand_cards := [fst (Card_new Spades Ace 1), fst (Card_new Hearts Six 2)]\<rparr>\<rparr>)
   \<and> getScore (dealerHand ((Blackjack_new 1 False True 1000 1 id)\<lparr>dealerHand :=
       Hand_new\<lparr>hand_cards := [fst (Card_new Spades Ten 1), fst (Card_new Hearts Eight 2)]\<rparr>\<rparr>)) > 17
   \<and> \<not> shouldDealerHit ((Blackjack_new 1 False True 1000 1 id)\<lparr>dealerHand :=
       Hand_new\<lparr>hand_cards := [fst (Card_new Spades Ten 1), fst (Card_new Hearts Eight 2)]\<rparr>\<rparr>)"
  using shouldDealerHit_policy [of "(Blackjack_new 1 False True 1000 1 id)\<lparr>dealerHand :=
       Hand_new\<lparr>hand_cards := [fst (Card_new Spades Ten 1), fst (Card_new Hearts Six 2)]\<rparr>\<rparr>"]
    shouldDealerHit_policy [of "(Blackjack_new 1 False True 1000 1 id)\<lparr>dealerHand :=
       Hand_new\<lparr>hand_cards := [fst (Card_new Spades Ace 1), fst (Card_new Hearts Six 2)]\<rparr>\<rparr>"]
    shouldDealerHit_policy [of "(Blackjack_new 1 False True 1000 1 id)\<lparr>dealerHand :=
       Hand_new\<lparr>hand_cards := [fst (Card_new Spades Ten 1), fst (Card_new Hearts Eight 2)]\<rparr>\<rparr>"]
  by (simp add: getScore_spec score_spec_def getValue_def Card_new_def soft_def Blackjack_new_def)

section \<open>Shuffling and building the shoe\<close>

lemma shuffle_loop_mset: "k < length cs \<Longrightarrow> mset (fst (shuffle_loop k r p cs)) = mset cs"
proof (induction k arbitrary: p cs)
  case 0
  show ?case by simp
next
  case (Suc k)
  define j where "j = r p mod (Suc k + 1)"
  have j: "j < length cs"
  proof -
    have "j < Suc k + 1" unfolding j_def by (rule mod_less_divisor) simp
    with Suc.prems show ?thesis by simp
  qed
  have swap: "mset (cs[Suc k := cs ! j, j := cs ! Suc k]) = mset cs"
    using j Suc.prems by (simp add: mset_swap)
  have "k < length (cs[Suc k := cs ! j, j := cs ! Suc k])"
    using Suc.prems by simp
  from Suc.IH [OF this, of "p + 1"] swap show ?case
    by (simp add: Let_def j_def)
qed

lemma shuffle_mset: "mset (cards (shuffle s)) = mset (cards s)"
proof (cases "cards s = []")
  case True
  then show ?thesis by (simp add: shuffle_def)
next
  case False
  then have "length (cards s) - 1 < length (cards s)" by simp
  from shuffle_loop_mset [OF this, of "random s" "randomPos s"] show ?thesis
    by (cases "shuffle_loop (length (cards s) - 1) (random s) (randomPos s) (cards s)")
       (simp add: shuffle_def)
qed

lemma shuffle_fields:
  "discardPile (shuffle s) = discardPile s"
  "numberOfDecks (shuffle s) = numberOfDecks s"
  "onEndOfShoe (shuffle s) = onEndOfShoe s"
  "endAlerted (shuffle s) = endAlerted s"
  "currentRoundDealt (shuffle s) = currentRoundDealt s"
  "nextId (shuffle s) = nextId s"
  "hookCalls (shuffle s) = hookCalls s"
  "defaultNotices (shuffle s) = defaultNotices s"
  by (simp_all add: shuffle_def split: prod.split)

lemma shuffle_length: "length (cards (shuffle s)) = length (cards s)"
  using shuffle_mset [of s] by (rule mset_eq_length)

lemma shuffle_empty: "cards (shuffle s) = [] \<longleftrightarrow> cards s = []"
  using shuffle_length [of s] by (metis length_0_conv)

lemma upt_join: "[n..<n + a] @ [n + a..<n + a + b] = [n..<n + (a + b)]"
  using upt_add_eq_append [of n "n + a" b] by (simp add: add.assoc)

lemma upt_front: "n # [Suc n..<Suc (n + k)] = [n..<Suc (n + k)]"
  by (simp add: upt_conv_Cons del: upt_Suc)

lemma Deck_push_pair:
  "Deck_push s r (cs, n) = (cs @ [fst (Card_new s r n)], n + 1)"
  by (simp add: Deck_push_def Card_new_def)

lemma Card_new_id: "card_id (fst (Card_new s r n)) = n"
  by (simp add: Card_new_def)

lemma Deck_ranks:
  "fold (\<lambda>r. Deck_push s r) rs (cs, n) = (ds, m) \<Longrightarrow>
     map card_id ds = map card_id cs @ [n..<n + length rs] \<and> m = n + length rs"
proof (induction rs arbitrary: cs n)
  case Nil
  then show ?case by simp
next
  case (Cons r rs)
  from Cons.prems have "fold (\<lambda>r. Deck_push s r) rs (cs @ [fst (Card_new s r n)], n + 1) = (ds, m)"
    by (simp add: Deck_push_pair)
  from Cons.IH [OF this] show ?case
    by (simp add: Card_new_id upt_front del: upt_Suc)
qed

lemma Deck_suits:
  "fold (\<lambda>s. fold (\<lambda>r. Deck_push s r) rs) ss (cs, n) = (ds, m) \<Longrightarrow>
     map card_id ds = map card_id cs @ [n..<n + length ss * length rs]
     \<and> m = n + length ss * length rs"
proof (induction ss arbitrary: cs n)
  case Nil
  then show ?case by simp
next
  case (Cons s ss)
  obtain cs1 n1 where inner: "fold (\<lambda>r. Deck_push s r) rs (cs, n) = (cs1, n1)"
    by (cases "fold (\<lambda>r. Deck_push s r) rs (cs, n)") blast
  from Deck_ranks [OF inner]
  have 1: "map card_id cs1 = map card_id cs @ [n..<n + length rs]" and 2: "n1 = n + length rs"
    by simp_all
  from Cons.prems inner have "fold (\<lambda>s. fold (\<lambda>r. Deck_push s r) rs) ss (cs1, n1) = (ds, m)"
    by simp
  from Cons.IH [OF this] 1 2 show ?case
    by (simp add: upt_join)
qed

lemma Deck_new_ids:
  "Deck_new n = (ds, m) \<Longrightarrow> map card_id ds = [n..<n + 52] \<and> m = n + 52"
proof -
  have len: "length suits * length ranks = 52"
    by (simp add: suits_def ranks_def)
  assume "Deck_new n = (ds, m)"
  then have "fold (\<lambda>s. fold (\<lambda>r. Deck_push s r) ranks) suits ([], n) = (ds, m)"
    by (simp only: Deck_new_def)
  from Deck_suits [OF this] len show ?thesis
    by simp
qed

lemma initializeShoe_loop_ids:
  "initializeShoe_loop k cs n = (ds, m) \<Longrightarrow>
     map card_id ds = map card_id cs @ [n..<n + 52 * k] \<and> m = n + 52 * k"
proof (induction k arbitrary: cs n)
  case 0
  then show ?case by simp
next
  case (Suc k)
  obtain d n1 where deck: "Deck_new n = (d, n1)"
    by (cases "Deck_new n") blast
  from Deck_new_ids [OF deck] have 1: "map card_id d = [n..<n + 52]" and 2: "n1 = n + 52"
    by simp_all
  from Suc.prems deck have "initializeShoe_loop k (cs @ d) n1 = (ds, m)"
    by simp
  from Suc.IH [OF this] 1 2 show ?case
    by (simp add: upt_join)
qed

lemma initializeShoe_ids:
  "mset (map card_id (cards (initializeShoe s)))
     = mset [nextId s..<nextId s + 52 * numberOfDecks s]"
proof -
  obtain cs n where loop: "initializeShoe_loop (numberOfDecks s) [] (nextId s) = (cs, n)"
    by (cases "initializeShoe_loop (numberOfDecks s) [] (nextId s)") blast
  from initializeShoe_loop_ids [OF loop]
  have ids: "map card_id cs = [nextId s..<nextId s + 52 * numberOfDecks s]" by simp
  have "mset (cards (initializeShoe s)) = mset cs"
    using loop shuffle_mset [of "s\<lparr>cards := cs, nextId := n\<rparr>"]
    by (simp add: initializeShoe_def)
  then have "mset (map card_id (cards (initializeShoe s))) = mset (map card_id cs)"
    by (metis mset_map)
  with ids show ?thesis by simp
qed

lemma initializeShoe_length:
  "length (cards (initializeShoe s)) = 52 * numberOfDecks s"
  using mset_eq_length [OF initializeShoe_ids [of s]] by simp

lemma initializeShoe_fields:
  "discardPile (initializeShoe s) = discardPile s"
  "numberOfDecks (initializeShoe s) = numberOfDecks s"
  "onEndOfShoe (initializeShoe s) = onEndOfShoe s"
  "endAlerted (initializeShoe s) = False"
  "currentRoundDealt (initializeShoe s) = currentRoundDealt s"
  "hookCalls (initializeShoe s) = hookCalls s"
  "defaultNotices (initializeShoe s) = defaultNotices s"
  by (simp_all add: initializeShoe_def shuffle_fields split: prod.split)

lemma initializeShoe_nextId:
  "nextId (initializeShoe s) = nextId s + 52 * numberOfDecks s"
proof -
  obtain cs n where loop: "initializeShoe_loop (numberOfDecks s) [] (nextId s) = (cs, n)"
    by (cases "initializeShoe_loop (numberOfDecks s) [] (nextId s)") blast
  from initializeShoe_loop_ids [OF loop] loop show ?thesis
    by (simp add: initializeShoe_def shuffle_fields)
qed


section \<open>The dealing loop\<close>

lemma mset_butlast_last: "xs \<noteq> [] \<Longrightarrow> mset (butlast xs) + {#last xs#} = mset xs"
  by (induction xs) auto

lemma rev_butlast_last: "xs \<noteq> [] \<Longrightarrow> last xs # rev (butlast xs) = rev xs"
  by (induction xs) auto

lemma deal_loop_stop:
  "\<not> (cards s \<noteq> [] \<and> a < m) \<Longrightarrow> deal_loop s m a = (None, s)"
  by (subst deal_loop.simps) auto

lemma deal_loop_no_round:
  "cards s \<noteq> [] \<Longrightarrow> a < m \<Longrightarrow> currentRoundDealt s = None \<Longrightarrow>
     deal_loop s m a = (Some (last (cards s)), s\<lparr>cards := butlast (cards s)\<rparr>)"
  by (subst deal_loop.simps) (simp add: Let_def)

lemma deal_loop_fresh:
  "cards s \<noteq> [] \<Longrightarrow> a < m \<Longrightarrow> currentRoundDealt s = Some dealt \<Longrightarrow>
   card_id (last (cards s)) \<notin> dealt \<Longrightarrow>
     deal_loop s m a =
       (Some (last (cards s)),
        s\<lparr>cards := butlast (cards s),
          currentRoundDealt := Some (insert (card_id (last (cards s))) dealt)\<rparr>)"
  by (subst deal_loop.simps) (simp add: Let_def)

lemma deal_loop_duplicate:
  "cards s \<noteq> [] \<Longrightarrow> a < m \<Longrightarrow> currentRoundDealt s = Some dealt \<Longrightarrow>
   card_id (last (cards s)) \<in> dealt \<Longrightarrow>
     deal_loop s m a =
       deal_loop (s\<lparr>cards := butlast (cards s),
                    discardPile := discardPile s @ [last (cards s)]\<rparr>) m (a + 1)"
  by (subst deal_loop.simps) (simp add: Let_def)

text \<open>
  One rule for all properties of the loop: a property of the result that holds when the
  loop stops, when it returns the top card, and that carries over an iteration on a
  duplicate, holds for every run.
\<close>

lemma deal_loop_cases [consumes 1, case_names stop no_round fresh duplicate]:
  assumes run: "deal_loop s m a = (r, s')"
    and stop: "\<And>s m a. \<not> (cards s \<noteq> [] \<and> a < m) \<Longrightarrow> P s m a None s"
    and no_round: "\<And>s m a. cards s \<noteq> [] \<Longrightarrow> a < m \<Longrightarrow> currentRoundDealt s = None \<Longrightarrow>
        P s m a (Some (last (cards s))) (s\<lparr>cards := butlast (cards s)\<rparr>)"
    and fresh: "\<And>s m a dealt. cards s \<noteq> [] \<Longrightarrow> a < m \<Longrightarrow>
        currentRoundDealt s = Some dealt \<Longrightarrow> card_id (last (cards s)) \<notin> dealt \<Longrightarrow>
        P s m a (Some (last (cards s)))
          (s\<lparr>cards := butlast (cards s),
             currentRoundDealt := Some (insert (card_id (last (cards s))) dealt)\<rparr>)"
    and duplicate: "\<And>s m a dealt r s'. cards s \<noteq> [] \<Longrightarrow> a < m \<Longrightarrow>
        currentRoundDealt s = Some dealt \<Longrightarrow> card_id (last (cards s)) \<in> dealt \<Longrightarrow>
        P (s\<lparr>cards := butlast (cards s),
             discardPile := discardPile s @ [last (cards s)]\<rparr>) m (a + 1) r s' \<Longrightarrow>
        P s m a r s'"
  shows "P s m a r s'"
  using run
proof (induction s m a arbitrary: r s' rule: deal_loop.induct)
  case (1 s m a)
  show ?case
  proof (cases "cards s \<noteq> [] \<and> a < m")
    case False
    from deal_loop_stop [OF False] "1.prems" stop [OF False] show ?thesis
      by simp
  next
    case True
    then have ne: "cards s \<noteq> []" and lt: "a < m" by simp_all
    show ?thesis
    proof (cases "currentRoundDealt s")
      case None
      from deal_loop_no_round [OF ne lt None] "1.prems" no_round [OF ne lt None]
      show ?thesis by simp
    next
      case (Some dealt)
      show ?thesis
      proof (cases "card_id (last (cards s)) \<in> dealt")
        case False
        from deal_loop_fresh [OF ne lt Some False] "1.prems" fresh [OF ne lt Some False]
        show ?thesis by simp
      next
        case dup: True
        let ?s1 = "s\<lparr>cards := butlast (cards s)\<rparr>"
        have run1: "deal_loop (?s1\<lparr>discardPile := discardPile ?s1 @ [last (cards s)]\<rparr>) m (a + 1)
                  = (r, s')"
          using deal_loop_duplicate [OF ne lt Some dup] "1.prems" by simp
        have "0 < length (cards s) \<and> a < m" using ne lt by simp
        from "1.IH" [OF this refl refl _ _ run1] Some dup
        have "P (?s1\<lparr>discardPile := discardPile ?s1 @ [last (cards s)]\<rparr>) m (a + 1) r s'"
          by simp
        then show ?thesis
          using duplicate [OF ne lt Some dup] by simp
      qed
    qed
  qed
qed

lemma deal_loop_fields:
  "deal_loop s m a = (r, s') \<Longrightarrow>
     numberOfDecks s' = numberOfDecks s \<and> onEndOfShoe s' = onEndOfShoe s
     \<and> endAlerted s' = endAlerted s \<and> nextId s' = nextId s
     \<and> hookCalls s' = hookCalls s \<and> defaultNotices s' = defaultNotices s"
  by (induction rule: deal_loop_cases) simp_all

lemma deal_loop_mset:
  "deal_loop s m a = (r, s') \<Longrightarrow>
     mset (cards s') + mset (discardPile s') + (case r of None \<Rightarrow> {#} | Some c \<Rightarrow> {#c#})
       = mset (cards s) + mset (discardPile s)"
proof (induction rule: deal_loop_cases)
  case (stop s m a)
  show ?case by simp
next
  case (no_round s m a)
  with mset_butlast_last [of "cards s"] show ?case by simp
next
  case (fresh s m a dealt)
  with mset_butlast_last [of "cards s"] show ?case by simp
next
  case (duplicate s m a dealt r s')
  with mset_butlast_last [of "cards s"] show ?case by simp
qed

lemma deal_loop_None:
  "deal_loop s m a = (r, s') \<Longrightarrow> r = None \<Longrightarrow> length (cards s) + a \<le> m \<Longrightarrow>
     cards s' = [] \<and> discardPile s' = discardPile s @ rev (cards s)
     \<and> currentRoundDealt s' = currentRoundDealt s"
proof (induction rule: deal_loop_cases)
  case (stop s m a)
  then have "cards s = []" by (cases "cards s") auto
  then show ?case by simp
next
  case (no_round s m a)
  then show ?case by simp
next
  case (fresh s m a dealt)
  then show ?case by simp
next
  case (duplicate s m a dealt r s')
  with rev_butlast_last [of "cards s"] show ?case by simp
qed

lemma notify_fields:
  "cards (notify n s) = cards s"
  "discardPile (notify n s) = discardPile s"
  "numberOfDecks (notify n s) = numberOfDecks s"
  "currentRoundDealt (notify n s) = currentRoundDealt s"
  "nextId (notify n s) = nextId s"
  by (simp_all add: notify_def Let_def)

lemma refill_discard:
  "discardPile s \<noteq> [] \<Longrightarrow>
     mset (cards (refill s)) = mset (discardPile s) \<and> discardPile (refill s) = []
     \<and> nextId (refill s) = nextId s"
  by (simp add: refill_def shuffle_mset shuffle_fields)

lemma refill_fields:
  "numberOfDecks (refill s) = numberOfDecks s"
  "currentRoundDealt (refill s) = currentRoundDealt s"
  by (simp_all add: refill_def shuffle_fields initializeShoe_fields)

lemma deal_nonempty:
  assumes ne: "cards s \<noteq> []"
  shows "\<exists>c s'. deal s = (Some c, s')
           \<and> mset (cards s') + mset (discardPile s') + {#c#}
               = mset (cards s) + mset (discardPile s)
           \<and> numberOfDecks s' = numberOfDecks s \<and> nextId s' = nextId s"
proof -
  let ?m = "max 10 (length (cards s) + 5)"
  obtain r s1 where loop: "deal_loop s ?m 0 = (r, s1)"
    by (cases "deal_loop s ?m 0") blast
  show ?thesis
  proof (cases r)
    case (Some c)
    with loop ne have "deal s = (Some c, s1)"
      by (simp add: deal_def)
    with deal_loop_mset [OF loop] deal_loop_fields [OF loop] Some show ?thesis
      by simp
  next
    case None
    with loop have l0: "deal_loop s ?m 0 = (None, s1)" by simp
    have "length (cards s) + 0 \<le> ?m" by simp
    from deal_loop_None [OF l0 refl this]
    have c1: "cards s1 = []" and d1: "discardPile s1 = discardPile s @ rev (cards s)"
      by simp_all
    from d1 ne have d1ne: "discardPile s1 \<noteq> []" by simp
    define s2 where "s2 = refill s1"
    from refill_discard [OF d1ne]
    have m2: "mset (cards s2) = mset (discardPile s1)" and d2: "discardPile s2 = []"
      and n2: "nextId s2 = nextId s1"
      by (simp_all add: s2_def)
    from m2 d1ne have c2: "cards s2 \<noteq> []" by (metis mset_zero_iff)
    define s3 where "s3 = s2\<lparr>cards := butlast (cards s2)\<rparr>"
    define s4 where "s4 = (case (currentRoundDealt s3, Some (last (cards s2))) of
                          (Some dealt, Some c) \<Rightarrow>
                            s3\<lparr>currentRoundDealt := Some (insert (card_id c) dealt)\<rparr>
                        | _ \<Rightarrow> s3)"
    have d: "deal s = (Some (last (cards s2)), notify (length (cards s)) s4)"
      using ne l0 c1 c2 [unfolded s2_def]
      by (simp add: deal_def s2_def s3_def s4_def Let_def split: option.split)
    have f4: "cards s4 = butlast (cards s2)" "discardPile s4 = []"
      "numberOfDecks s4 = numberOfDecks s2" "nextId s4 = nextId s2"
      by (simp_all add: s4_def s3_def d2 split: option.split)
    have "mset (butlast (cards s2)) + {#last (cards s2)#} = mset (cards s) + mset (discardPile s)"
      using mset_butlast_last [OF c2] m2 d1 by simp
    with d f4 n2 deal_loop_fields [OF l0] show ?thesis
      by (simp add: notify_fields s2_def refill_fields)
  qed
qed

lemma deal_empty:
  "cards s = [] \<Longrightarrow> cards (refill s) \<noteq> [] \<Longrightarrow> deal s = deal (refill s)"
  by (simp add: deal_def)

lemma deal_conserve:
  assumes "cards s \<noteq> [] \<or> discardPile s \<noteq> []"
  shows "\<exists>c s'. deal s = (Some c, s')
           \<and> mset (cards s') + mset (discardPile s') + {#c#}
               = mset (cards s) + mset (discardPile s)
           \<and> numberOfDecks s' = numberOfDecks s \<and> nextId s' = nextId s"
proof (cases "cards s = []")
  case False
  then show ?thesis by (rule deal_nonempty)
next
  case True
  with assms have dne: "discardPile s \<noteq> []" by simp
  from refill_discard [OF dne]
  have m: "mset (cards (refill s)) = mset (discardPile s)" and d: "discardPile (refill s) = []"
    and n: "nextId (refill s) = nextId s"
    by simp_all
  from m dne have ne: "cards (refill s) \<noteq> []" by (metis mset_zero_iff)
  from deal_nonempty [OF ne] deal_empty [OF True ne] m d n True show ?thesis
    by (simp add: refill_fields)
qed

lemma deal_reinitialize:
  assumes "cards s = []" and "discardPile s = []" and "1 \<le> numberOfDecks s"
  shows "\<exists>c s'. deal s = (Some c, s')
           \<and> mset (map card_id (cards s' @ discardPile s' @ [c]))
               = mset [nextId s..<nextId s + 52 * numberOfDecks s]
           \<and> numberOfDecks s' = numberOfDecks s
           \<and> nextId s' = nextId s + 52 * numberOfDecks s"
proof -
  have r: "refill s = initializeShoe s"
    using assms by (simp add: refill_def)
  have "length (cards (refill s)) = 52 * numberOfDecks s"
    by (simp add: r initializeShoe_length)
  with assms have ne: "cards (refill s) \<noteq> []" by auto
  from deal_nonempty [OF ne] obtain c s' where
    d: "deal (refill s) = (Some c, s')"
    and m: "mset (cards s') + mset (discardPile s') + {#c#}
              = mset (cards (refill s)) + mset (discardPile (refill s))"
    and f: "numberOfDecks s' = numberOfDecks (refill s)" "nextId s' = nextId (refill s)"
    by blast
  from m have "mset (cards s' @ discardPile s' @ [c]) = mset (cards (initializeShoe s))"
    using assms by (simp add: r initializeShoe_fields)
  then have "mset (map card_id (cards s' @ discardPile s' @ [c]))
               = mset (map card_id (cards (initializeShoe s)))"
    by (metis mset_map)
  with d f deal_empty [OF assms(1) ne] initializeShoe_ids [of s] show ?thesis
    by (simp add: r initializeShoe_fields initializeShoe_nextId)
qed


text \<open>
  C3. On a shoe of at least one deck every call of \<^verbatim>\<open>deal\<close> returns a card, in any
  state (\<open>deal\<close> is a total function, so the call also terminates). While the shoe or
  the discard pile holds a card, the call only moves cards between the two and hands one
  out; with an empty shoe the card comes from the discard pile, which has been moved into
  the shoe; with both empty the shoe has been rebuilt from fresh cards, numbered from the
  next free id on.
\<close>

theorem deal_returns_card:
  assumes "1 \<le> numberOfDecks s"
  shows "\<exists>c s'. deal s = (Some c, s')
           \<and> numberOfDecks s' = numberOfDecks s
           \<and> (cards s \<noteq> [] \<or> discardPile s \<noteq> [] \<longrightarrow>
                mset (cards s') + mset (discardPile s') + {#c#}
                  = mset (cards s) + mset (discardPile s))
           \<and> (cards s = [] \<and> discardPile s \<noteq> [] \<longrightarrow> c \<in> set (discardPile s))
           \<and> (cards s = [] \<and> discardPile s = [] \<longrightarrow>
                mset (map card_id (cards s' @ discardPile s' @ [c]))
                  = mset [nextId s..<nextId s + 52 * numberOfDecks s])"
proof (cases "cards s \<noteq> [] \<or> discardPile s \<noteq> []")
  case True
  from deal_conserve [OF True] obtain c s' where
    d: "deal s = (Some c, s')"
    and m: "mset (cards s') + mset (discardPile s') + {#c#}
              = mset (cards s) + mset (discardPile s)"
    and f: "numberOfDecks s' = numberOfDecks s"
    by blast
  have inset: "c \<in> set (discardPile s)" if "cards s = []"
  proof -
    have "c \<in># mset (cards s') + mset (discardPile s') + {#c#}" by simp
    with m that show ?thesis by simp
  qed
  from True have nex: "\<not> (cards s = [] \<and> discardPile s = [])" by simp
  from d m f inset nex show ?thesis by blast
next
  case False
  then have e: "cards s = []" "discardPile s = []" by simp_all
  from deal_reinitialize [OF e assms] obtain c s' where
    "deal s = (Some c, s')"
    "mset (map card_id (cards s' @ discardPile s' @ [c]))
       = mset [nextId s..<nextId s + 52 * numberOfDecks s]"
    "numberOfDecks s' = numberOfDecks s"
    by blast
  with e show ?thesis by blast
qed

lemma deal_fresh:
  "cards s \<noteq> [] \<Longrightarrow> currentRoundDealt s = Some dealt \<Longrightarrow>
   card_id (last (cards s)) \<notin> dealt \<Longrightarrow>
     deal s =
       (Some (last (cards s)),
        s\<lparr>cards := butlast (cards s),
          currentRoundDealt := Some (insert (card_id (last (cards s))) dealt)\<rparr>)"
  by (simp add: deal_def deal_loop_fresh)

lemma deal_no_round:
  "cards s \<noteq> [] \<Longrightarrow> currentRoundDealt s = None \<Longrightarrow>
     deal s = (Some (last (cards s)), s\<lparr>cards := butlast (cards s)\<rparr>)"
  by (simp add: deal_def deal_loop_no_round)

lemma distinct_last_butlast:
  "xs \<noteq> [] \<Longrightarrow> distinct (map f xs) \<Longrightarrow> f (last xs) \<notin> f ` set (butlast xs)"
  by (induction xs rule: rev_induct) auto

lemma deal_n_round:
  "currentRoundDealt s = Some dealt \<Longrightarrow> distinct (map card_id (cards s)) \<Longrightarrow>
   dealt \<inter> card_id ` set (cards s) = {} \<Longrightarrow> n \<le> length (cards s) \<Longrightarrow>
   deal_n n s = (cs, s') \<Longrightarrow>
     length cs = n \<and> None \<notin> set cs
     \<and> cards s' = take (length (cards s) - n) (cards s)
     \<and> discardPile s' = discardPile s \<and> hookCalls s' = hookCalls s
     \<and> defaultNotices s' = defaultNotices s \<and> endAlerted s' = endAlerted s"
proof (induction n arbitrary: s dealt cs s')
  case 0
  then show ?case by simp
next
  case (Suc n)
  from Suc.prems(4) have ne: "cards s \<noteq> []" by auto
  let ?c = "last (cards s)"
  let ?s1 = "s\<lparr>cards := butlast (cards s),
               currentRoundDealt := Some (insert (card_id ?c) dealt)\<rparr>"
  have "?c \<in> set (cards s)" using ne by simp
  with Suc.prems(3) have fresh: "card_id ?c \<notin> dealt" by auto
  note d = deal_fresh [OF ne Suc.prems(1) fresh]
  obtain cs1 where rest: "deal_n n ?s1 = (cs1, s')" and cs: "cs = Some ?c # cs1"
    using Suc.prems(5) d by (auto split: prod.splits)
  have 1: "currentRoundDealt ?s1 = Some (insert (card_id ?c) dealt)" by simp
  have 2: "distinct (map card_id (cards ?s1))"
    using Suc.prems(2) by (simp add: distinct_butlast map_butlast)
  have 3: "insert (card_id ?c) dealt \<inter> card_id ` set (cards ?s1) = {}"
    using distinct_last_butlast [OF ne Suc.prems(2)] Suc.prems(3)
    by (auto dest: in_set_butlastD)
  have 4: "n \<le> length (cards ?s1)" using Suc.prems(4) by simp
  from Suc.IH [OF 1 2 3 4 rest] cs show ?case
    by (simp add: butlast_conv_take min_def)
qed

lemma Shoe_new_fields:
  "discardPile (Shoe_new d n0 rnd) = []"
  "numberOfDecks (Shoe_new d n0 rnd) = d"
  "currentRoundDealt (Shoe_new d n0 rnd) = None"
  "hookCalls (Shoe_new d n0 rnd) = 0"
  "defaultNotices (Shoe_new d n0 rnd) = 0"
  "endAlerted (Shoe_new d n0 rnd) = False"
  "length (cards (Shoe_new d n0 rnd)) = 52 * d"
  by (simp_all add: Shoe_new_def initializeShoe_fields initializeShoe_length)

lemma Shoe_new_distinct: "distinct (map card_id (cards (Shoe_new d n0 rnd)))"
proof -
  have "mset (map card_id (cards (Shoe_new d n0 rnd))) = mset [n0..<n0 + 52 * d]"
    using initializeShoe_ids [of "\<lparr>cards = [], discardPile = [], numberOfDecks = d,
        onEndOfShoe = False, endAlerted = False, currentRoundDealt = None, nextId = n0,
        random = rnd, randomPos = 0, hookCalls = 0, defaultNotices = 0\<rparr>"]
    by (simp add: Shoe_new_def)
  from mset_eq_imp_distinct_iff [OF this] show ?thesis by simp
qed



theorem deal_returns_card_witness:
  "1 \<le> numberOfDecks (Shoe_new 1 1 id)
   \<and> cards (Shoe_new 1 1 id) \<noteq> []
   \<and> (\<exists>c s'. deal (Shoe_new 1 1 id) = (Some c, s')
          \<and> mset (cards s') + mset (discardPile s') + {#c#}
               = mset (cards (Shoe_new 1 1 id)) + mset (discardPile (Shoe_new 1 1 id)))
   \<and> 1 \<le> numberOfDecks ((Shoe_new 1 1 id)\<lparr>cards := [],
            discardPile := [fst (Card_new Spades Ace 1)]\<rparr>)
   \<and> cards ((Shoe_new 1 1 id)\<lparr>cards := [],
            discardPile := [fst (Card_new Spades Ace 1)]\<rparr>) = []
   \<and> discardPile ((Shoe_new 1 1 id)\<lparr>cards := [],
            discardPile := [fst (Card_new Spades Ace 1)]\<rparr>) \<noteq> []
   \<and> (\<exists>c s'. deal ((Shoe_new 1 1 id)\<lparr>cards := [],
            discardPile := [fst (Card_new Spades Ace 1)]\<rparr>) = (Some c, s')
          \<and> c \<in> set (discardPile ((Shoe_new 1 1 id)\<lparr>cards := [],
            discardPile := [fst (Card_new Spades Ace 1)]\<rparr>)))
   \<and> 1 \<le> numberOfDecks ((Shoe_new 1 1 id)\<lparr>cards := []\<rparr>)
   \<and> cards ((Shoe_new 1 1 id)\<lparr>cards := []\<rparr>) = []
   \<and> discardPile ((Shoe_new 1 1 id)\<lparr>cards := []\<rparr>) = []
   \<and> (\<exists>c s'. deal ((Shoe_new 1 1 id)\<lparr>cards := []\<rparr>) = (Some c, s')
          \<and> mset (map card_id (cards s' @ discardPile s' @ [c]))
               = mset [nextId ((Shoe_new 1 1 id)\<lparr>cards := []\<rparr>)
                       ..<nextId ((Shoe_new 1 1 id)\<lparr>cards := []\<rparr>)
                          + 52 * numberOfDecks ((Shoe_new 1 1 id)\<lparr>cards := []\<rparr>)])"
proof -
  let ?A = "Shoe_new 1 1 id"
  let ?B = "?A\<lparr>cards := [], discardPile := [fst (Card_new Spades Ace 1)]\<rparr>"
  let ?C = "?A\<lparr>cards := []\<rparr>"
  have a: "1 \<le> numberOfDecks ?A" and b: "1 \<le> numberOfDecks ?B" and c: "1 \<le> numberOfDecks ?C"
    by (simp_all add: Shoe_new_fields)
  have a1: "cards ?A \<noteq> []"
    using Shoe_new_fields(7) [of 1 1 id] by auto
  have b1: "cards ?B = []" "discardPile ?B \<noteq> []" by simp_all
  have c1: "cards ?C = []" "discardPile ?C = []" by (simp_all add: Shoe_new_fields)
  from deal_returns_card [OF a] a1 have ra: "\<exists>c s'. deal ?A = (Some c, s')
          \<and> mset (cards s') + mset (discardPile s') + {#c#}
               = mset (cards ?A) + mset (discardPile ?A)"
    by blast
  from deal_returns_card [OF b] b1 have rb: "\<exists>c s'. deal ?B = (Some c, s')
          \<and> c \<in> set (discardPile ?B)"
    by blast
  from deal_returns_card [OF c] c1 have rc: "\<exists>c s'. deal ?C = (Some c, s')
          \<and> mset (map card_id (cards s' @ discardPile s' @ [c]))
               = mset [nextId ?C..<nextId ?C + 52 * numberOfDecks ?C]"
    by blast
  from a b c a1 b1 c1 ra rb rc show ?thesis by blast
qed

text \<open>
  C1. One deck, one open round, no discard, whatever the shuffle and whether or not a
  callback is installed: the 52nd call of \<^verbatim>\<open>deal\<close> starts with exactly one card
  in the shoe and returns a card, as do the 51 calls before it, and at the end neither
  the callback nor the default notice has run and the alert flag is still unset.
\<close>

theorem last_card_dealt_without_notice:
  "length (cards (snd (deal_n 51 (startRound ((Shoe_new 1 n0 rnd)\<lparr>onEndOfShoe := hook\<rparr>))))) = 1
   \<and> length (fst (deal_n 52 (startRound ((Shoe_new 1 n0 rnd)\<lparr>onEndOfShoe := hook\<rparr>)))) = 52
   \<and> None \<notin> set (fst (deal_n 52 (startRound ((Shoe_new 1 n0 rnd)\<lparr>onEndOfShoe := hook\<rparr>))))
   \<and> cards (snd (deal_n 52 (startRound ((Shoe_new 1 n0 rnd)\<lparr>onEndOfShoe := hook\<rparr>)))) = []
   \<and> hookCalls (snd (deal_n 52 (startRound ((Shoe_new 1 n0 rnd)\<lparr>onEndOfShoe := hook\<rparr>)))) = 0
   \<and> defaultNotices (snd (deal_n 52 (startRound ((Shoe_new 1 n0 rnd)\<lparr>onEndOfShoe := hook\<rparr>)))) = 0
   \<and> \<not> endAlerted (snd (deal_n 52 (startRound ((Shoe_new 1 n0 rnd)\<lparr>onEndOfShoe := hook\<rparr>))))"
proof -
  define s where "s = startRound ((Shoe_new 1 n0 rnd)\<lparr>onEndOfShoe := hook\<rparr>)"
  have 1: "currentRoundDealt s = Some {}" by (simp add: s_def startRound_def)
  have 2: "distinct (map card_id (cards s))"
    using Shoe_new_distinct [of 1 n0 rnd] by (simp add: s_def startRound_def)
  have 3: "{} \<inter> card_id ` set (cards s) = {}" by simp
  have len: "length (cards s) = 52"
    using Shoe_new_fields(7) [of 1 n0 rnd] by (simp add: s_def startRound_def)
  have f: "hookCalls s = 0" "defaultNotices s = 0" "\<not> endAlerted s"
    using Shoe_new_fields(4-6) [of 1 n0 rnd] by (simp_all add: s_def startRound_def)
  have 4: "51 \<le> length (cards s)" and 5: "52 \<le> length (cards s)"
    by (simp_all add: len)
  have a: "deal_n 51 s = (fst (deal_n 51 s), snd (deal_n 51 s))"
    and b: "deal_n 52 s = (fst (deal_n 52 s), snd (deal_n 52 s))"
    by (simp_all del: deal_n.simps)
  from deal_n_round [OF 1 2 3 4 a] deal_n_round [OF 1 2 3 5 b] len f show ?thesis
    unfolding s_def [symmetric] by (simp del: deal_n.simps)
qed


section \<open>Player actions\<close>

lemma deal_Some:
  assumes "1 \<le> numberOfDecks s"
  obtains c s' where "deal s = (Some c, s')" and "numberOfDecks s' = numberOfDecks s"
proof (cases "cards s \<noteq> [] \<or> discardPile s \<noteq> []")
  case True
  from deal_conserve [OF True] that show thesis by blast
next
  case False
  then have e: "cards s = []" "discardPile s = []" by simp_all
  from deal_reinitialize [OF e assms] that show thesis by blast
qed

text \<open>
  C8. On an existing hand of a game whose shoe has at least one deck, \<^verbatim>\<open>double\<close>
  throws if and only if the hand does not hold exactly two cards. Otherwise it returns:
  the original bet is set from the current bet when it was unset (or zero), the hand is
  marked doubled, its bet is doubled, one card from the shoe is added to it, the hand is
  marked as stood exactly when that card does not bust it, and the turn moves to the next
  hand when there is one (through \<^verbatim>\<open>stand\<close> when the hand is not bust, through
  \<^verbatim>\<open>hit\<close> when it is).
\<close>

theorem double_contract:
  assumes "handIndex < length (playerHands g)" and "1 \<le> numberOfDecks (shoe g)"
  shows "((\<exists>e. fst (double handIndex g) = Threw e)
            \<longleftrightarrow> length (hand_cards (playerHands g ! handIndex)) \<noteq> 2)
         \<and> (length (hand_cards (playerHands g ! handIndex)) = 2 \<longrightarrow>
              (\<exists>c sh. deal (shoe g) = (Some c, sh)
                 \<and> double handIndex g =
                     (let h = playerHands g ! handIndex;
                          h0 = (if truthy (originalBet h) then h
                                else h\<lparr>originalBet := Some (bet h)\<rparr>);
                          h1 = h0\<lparr>doubled := Some True, bet := bet h * 2,
                                  hand_cards := hand_cards h @ [c]\<rparr>;
                          h2 = (if isBusted h1 then h1 else h1\<lparr>hasStood := True\<rparr>)
                      in (Returned (),
                          g\<lparr>shoe := sh,
                            playerHands := (playerHands g)[handIndex := h2],
                            currentHandIndex :=
                              (if handIndex + 1 < length (playerHands g) then handIndex + 1
                               else currentHandIndex g)\<rparr>))))"
proof -
  from assms(2) obtain c sh where d: "deal (shoe g) = (Some c, sh)"
    by (rule deal_Some)
  let ?h = "playerHands g ! handIndex"
  show ?thesis
  proof (cases "length (hand_cards ?h) = 2")
    case False
    with assms(1) show ?thesis
      by (simp add: double_def Let_def)
  next
    case True
    have busted: "isBusted (h\<lparr>hasStood := b\<rparr>) = isBusted h" for h b
      by (simp add: isBusted_def getScore_def)
    from True assms(1) d show ?thesis
      by (cases "truthy (originalBet ?h)")
         (simp_all add: double_def hit_def stand_def endHand_def addCard_def Let_def isBusted_def
            getScore_def)
  qed
qed

text \<open>
  C7. On an existing hand of a game whose shoe has at least one deck, \<^verbatim>\<open>split\<close>
  throws unless the hand holds exactly two cards of equal value. Otherwise it returns:
  both hands are marked as split; the source hand keeps its first card and the new hand
  takes the second; the new hand carries the bet and the original-bet basis of the source
  hand; the first card dealt goes to the new hand and the second to the source hand, so
  each holds two cards; the new hand stands right after the source hand in
  \<open>playerHands\<close>. Any two ranks among Ten, Jack, Queen and King have equal value.
\<close>

theorem split_contract:
  assumes "handIndex < length (playerHands g)" and "1 \<le> numberOfDecks (shoe g)"
  shows "((\<exists>e. fst (split handIndex g) = Threw e)
            \<longleftrightarrow> \<not> (length (hand_cards (playerHands g ! handIndex)) = 2
                    \<and> getValue (hand_cards (playerHands g ! handIndex) ! 0)
                        = getValue (hand_cards (playerHands g ! handIndex) ! 1)))
         \<and> (length (hand_cards (playerHands g ! handIndex)) = 2
              \<and> getValue (hand_cards (playerHands g ! handIndex) ! 0)
                  = getValue (hand_cards (playerHands g ! handIndex) ! 1) \<longrightarrow>
              (\<exists>c1 sh1 c2 sh2. deal (shoe g) = (Some c1, sh1) \<and> deal sh1 = (Some c2, sh2)
                 \<and> split handIndex g =
                     (let h = playerHands g ! handIndex;
                          h' = h\<lparr>isSplit := True, hand_cards := [hand_cards h ! 0, c2]\<rparr>;
                          n = Hand_new\<lparr>bet := bet h,
                                originalBet := (if truthy (originalBet h) then originalBet h
                                                else Some (bet h)),
                                doubled := Some False,
                                isSplit := True,
                                hand_cards := [hand_cards h ! 1, c1]\<rparr>
                      in (Returned (),
                          g\<lparr>shoe := sh2,
                            playerHands := take handIndex (playerHands g) @ [h', n]
                                             @ drop (handIndex + 1) (playerHands g)\<rparr>))))
         \<and> (r1 \<in> {Ten, Jack, Queen, King} \<and> r2 \<in> {Ten, Jack, Queen, King} \<longrightarrow>
              getValue (c\<lparr>rank := r1\<rparr>) = getValue (c'\<lparr>rank := r2\<rparr>))"
proof -
  from assms(2) obtain c1 sh1 where d1: "deal (shoe g) = (Some c1, sh1)"
    and n1: "numberOfDecks sh1 = numberOfDecks (shoe g)"
    by (rule deal_Some)
  from assms(2) n1 have "1 \<le> numberOfDecks sh1" by simp
  then obtain c2 sh2 where d2: "deal sh1 = (Some c2, sh2)"
    by (rule deal_Some)
  let ?h = "playerHands g ! handIndex"
  have tens: "r1 \<in> {Ten, Jack, Queen, King} \<and> r2 \<in> {Ten, Jack, Queen, King} \<longrightarrow>
              getValue (c\<lparr>rank := r1\<rparr>) = getValue (c'\<lparr>rank := r2\<rparr>)"
    by (auto simp: getValue_def)
  show ?thesis
  proof (cases "length (hand_cards ?h) = 2
                 \<and> getValue (hand_cards ?h ! 0) = getValue (hand_cards ?h ! 1)")
    case False
    then have thrown: "split handIndex g
                        = (Threw (Error ''Can only split identical value cards''), g)"
      using assms(1) by (auto simp: split_def Let_def)
    from False tens show ?thesis
      unfolding thrown by auto
  next
    case True
    then obtain a b where ab: "hand_cards ?h = [a, b]"
      by (cases "hand_cards ?h"; cases "tl (hand_cards ?h)") auto
    have tk: "take (Suc handIndex) (xs[handIndex := x]) = take handIndex xs @ [x]"
      if "handIndex < length xs" for xs :: "hand list" and x
      using that by (simp add: take_Suc_conv_app_nth)
    from True assms(1) d1 d2 tens ab show ?thesis
      by (simp add: split_def Let_def addCard_def Hand_new_def tk)
  qed
qed

text \<open>
  C9. On an existing hand, \<^verbatim>\<open>surrender\<close> throws if and only if surrender is not
  allowed or the hand holds more than two cards. Otherwise it marks the hand as
  surrendered and ends it: the current hand index moves to the next hand when there is
  one and stays as it is when the hand is the last.
\<close>

theorem surrender_contract:
  assumes "handIndex < length (playerHands g)"
  shows "((\<exists>e. fst (surrender handIndex g) = Threw e)
            \<longleftrightarrow> \<not> allowSurrender g \<or> length (hand_cards (playerHands g ! handIndex)) > 2)
         \<and> (allowSurrender g \<and> length (hand_cards (playerHands g ! handIndex)) \<le> 2 \<longrightarrow>
              surrender handIndex g =
                (Returned (),
                 g\<lparr>playerHands :=
                      (playerHands g)[handIndex := (playerHands g ! handIndex)\<lparr>hasSurrendered := True\<rparr>],
                   currentHandIndex :=
                      (if handIndex + 1 < length (playerHands g) then handIndex + 1
                       else currentHandIndex g)\<rparr>))"
  using assms by (auto simp: surrender_def endHand_def Let_def)

lemma hit_no_Error: "hit i g \<noteq> (Threw (Error m), g')"
  by (auto simp: hit_def Let_def split: prod.splits option.splits if_splits)

lemma stand_no_Error: "stand i g \<noteq> (Threw (Error m), g')"
  by (auto simp: stand_def Let_def split: if_splits)

lemma surrender_Error: "surrender i g = (Threw e, g') \<Longrightarrow> g' = g"
  by (auto simp: surrender_def Let_def split: if_splits)

lemma double_Error: "double i g = (Threw (Error m), g') \<Longrightarrow> g' = g"
  by (auto simp: double_def Let_def hit_no_Error stand_no_Error
      split: if_splits prod.splits outcome.splits)

lemma split_Error: "split i g = (Threw (Error m), g') \<Longrightarrow> g' = g"
  by (auto simp: split_def Let_def split: if_splits prod.splits option.splits)

text \<open>
  C10. When \<^verbatim>\<open>surrender\<close>, \<^verbatim>\<open>double\<close> or \<^verbatim>\<open>split\<close> throws one of its
  \<^verbatim>\<open>new Error\<close> precondition errors, the state at the throw is the state before the
  call: shoe, hands, current hand index and chips are all untouched.
\<close>

theorem failed_action_leaves_state:
  "(surrender i g = (Threw (Error m), g') \<longrightarrow> g' = g)
   \<and> (double i g = (Threw (Error m), g') \<longrightarrow> g' = g)
   \<and> (split i g = (Threw (Error m), g') \<longrightarrow> g' = g)"
  using surrender_Error double_Error split_Error by blast


theorem double_contract_witness:
  "0 < length (playerHands (table True [pair_of_eights]))
   \<and> 1 \<le> numberOfDecks (shoe (table True [pair_of_eights]))
   \<and> length (hand_cards (playerHands (table True [pair_of_eights]) ! 0)) = 2
   \<and> (\<exists>c sh. deal (shoe (table True [pair_of_eights])) = (Some c, sh)
         \<and> double 0 (table True [pair_of_eights]) =
             (let h1 = pair_of_eights\<lparr>doubled := Some True, bet := 20,
                         hand_cards := hand_cards pair_of_eights @ [c]\<rparr>;
                  h2 = (if isBusted h1 then h1 else h1\<lparr>hasStood := True\<rparr>)
              in (Returned (),
                  (table True [pair_of_eights])\<lparr>shoe := sh, playerHands := [h2]\<rparr>)))
   \<and> 0 < length (playerHands (table True [three_sevens]))
   \<and> 1 \<le> numberOfDecks (shoe (table True [three_sevens]))
   \<and> length (hand_cards (playerHands (table True [three_sevens]) ! 0)) \<noteq> 2
   \<and> (\<exists>e. fst (double 0 (table True [three_sevens])) = Threw e)"
proof -
  have a: "0 < length (playerHands (table True [pair_of_eights]))"
    and b: "0 < length (playerHands (table True [three_sevens]))"
    by simp_all
  have c: "1 \<le> numberOfDecks (shoe (table True [pair_of_eights]))"
    and d: "1 \<le> numberOfDecks (shoe (table True [three_sevens]))"
    by (simp_all add: Blackjack_new_def Shoe_new_fields)
  from double_contract [OF a c] double_contract [OF b d] c d show ?thesis
    by (simp add: truthy_def Hand_new_def)
qed

theorem split_contract_witness:
  "0 < length (playerHands (table True [pair_of_eights]))
   \<and> 1 \<le> numberOfDecks (shoe (table True [pair_of_eights]))
   \<and> length (hand_cards (playerHands (table True [pair_of_eights]) ! 0)) = 2
   \<and> getValue (hand_cards (playerHands (table True [pair_of_eights]) ! 0) ! 0)
        = getValue (hand_cards (playerHands (table True [pair_of_eights]) ! 0) ! 1)
   \<and> (\<exists>c1 sh1 c2 sh2. deal (shoe (table True [pair_of_eights])) = (Some c1, sh1)
         \<and> deal sh1 = (Some c2, sh2)
         \<and> split 0 (table True [pair_of_eights]) =
             (Returned (),
              (table True [pair_of_eights])
                \<lparr>shoe := sh2,
                 playerHands :=
                   [pair_of_eights\<lparr>isSplit := True,
                      hand_cards := [fst (Card_new Spades Eight 101), c2]\<rparr>,
                    Hand_new\<lparr>bet := 10, originalBet := Some 10, doubled := Some False,
                      isSplit := True,
                      hand_cards := [fst (Card_new Clubs Eight 102), c1]\<rparr>]\<rparr>))
   \<and> 0 < length (playerHands (table True [eight_nine]))
   \<and> 1 \<le> numberOfDecks (shoe (table True [eight_nine]))
   \<and> getValue (hand_cards (playerHands (table True [eight_nine]) ! 0) ! 0)
        \<noteq> getValue (hand_cards (playerHands (table True [eight_nine]) ! 0) ! 1)
   \<and> (\<exists>e. fst (split 0 (table True [eight_nine])) = Threw e)
   \<and> Ten \<in> {Ten, Jack, Queen, King} \<and> King \<in> {Ten, Jack, Queen, King}
   \<and> getValue ((fst (Card_new Spades Eight 101))\<lparr>rank := Ten\<rparr>)
        = getValue ((fst (Card_new Clubs Eight 102))\<lparr>rank := King\<rparr>)"
proof -
  have a: "0 < length (playerHands (table True [pair_of_eights]))"
    and b: "0 < length (playerHands (table True [eight_nine]))"
    by simp_all
  have c: "1 \<le> numberOfDecks (shoe (table True [pair_of_eights]))"
    and d: "1 \<le> numberOfDecks (shoe (table True [eight_nine]))"
    by (simp_all add: Blackjack_new_def Shoe_new_fields)
  from split_contract [OF a c, of Ten King "fst (Card_new Spades Eight 101)"
                         "fst (Card_new Clubs Eight 102)"]
       split_contract [OF b d, of Ten King "fst (Card_new Spades Eight 101)"
                         "fst (Card_new Clubs Eight 102)"] c d
  show ?thesis
    by (simp add: Let_def truthy_def Hand_new_def Card_new_def getValue_def)
qed

theorem surrender_contract_witness:
  "0 < length (playerHands (table True [pair_of_eights, eight_nine]))
   \<and> allowSurrender (table True [pair_of_eights, eight_nine])
   \<and> length (hand_cards (playerHands (table True [pair_of_eights, eight_nine]) ! 0)) \<le> 2
   \<and> surrender 0 (table True [pair_of_eights, eight_nine]) =
        (Returned (),
         (table True [pair_of_eights, eight_nine])
           \<lparr>playerHands := [pair_of_eights\<lparr>hasSurrendered := True\<rparr>, eight_nine],
            currentHandIndex := 1\<rparr>)
   \<and> 0 < length (playerHands (table False [pair_of_eights]))
   \<and> \<not> allowSurrender (table False [pair_of_eights])
   \<and> (\<exists>e. fst (surrender 0 (table False [pair_of_eights])) = Threw e)
   \<and> 0 < length (playerHands (table True [three_sevens]))
   \<and> length (hand_cards (playerHands (table True [three_sevens]) ! 0)) > 2
   \<and> (\<exists>e. fst (surrender 0 (table True [three_sevens])) = Threw e)"
proof -
  have a: "0 < length (playerHands (table True [pair_of_eights, eight_nine]))"
    and b: "0 < length (playerHands (table False [pair_of_eights]))"
    and c: "0 < length (playerHands (table True [three_sevens]))"
    by simp_all
  from surrender_contract [OF a] surrender_contract [OF b] surrender_contract [OF c]
  show ?thesis
    by (simp add: Blackjack_new_def Hand_new_def)
qed

theorem failed_action_leaves_state_witness:
  "surrender 0 (table False [pair_of_eights])
     = (Threw (Error ''Surrender is not allowed in current game settings''),
        table False [pair_of_eights])
   \<and> double 0 (table True [three_sevens])
     = (Threw (Error ''Can only double down on initial hand''), table True [three_sevens])
   \<and> split 0 (table True [eight_nine])
     = (Threw (Error ''Can only split identical value cards''), table True [eight_nine])"
proof -
  have s: "surrender 0 (table False [pair_of_eights])
     = (Threw (Error ''Surrender is not allowed in current game settings''),
        snd (surrender 0 (table False [pair_of_eights])))"
    by (simp add: surrender_def Blackjack_new_def)
  have d: "double 0 (table True [three_sevens])
     = (Threw (Error ''Can only double down on initial hand''),
        snd (double 0 (table True [three_sevens])))"
    by (simp add: double_def Hand_new_def)
  have p: "split 0 (table True [eight_nine])
     = (Threw (Error ''Can only split identical value cards''),
        snd (split 0 (table True [eight_nine])))"
    by (simp add: split_def Hand_new_def Card_new_def getValue_def)
  from failed_action_leaves_state
         [where i = 0 and g = "table False [pair_of_eights]"
            and m = "''Surrender is not allowed in current game settings''"
            and g' = "snd (surrender 0 (table False [pair_of_eights]))"] s
  have 1: "snd (surrender 0 (table False [pair_of_eights])) = table False [pair_of_eights]"
    by blast
  from failed_action_leaves_state
         [where i = 0 and g = "table True [three_sevens]"
            and m = "''Can only double down on initial hand''"
            and g' = "snd (double 0 (table True [three_sevens]))"] d
  have 2: "snd (double 0 (table True [three_sevens])) = table True [three_sevens]"
    by blast
  from failed_action_leaves_state
         [where i = 0 and g = "table True [eight_nine]"
            and m = "''Can only split identical value cards''"
            and g' = "snd (split 0 (table True [eight_nine]))"] p
  have 3: "snd (split 0 (table True [eight_nine])) = table True [eight_nine]"
    by blast
  from s d p 1 2 3 show ?thesis by simp
qed

section \<open>Card conservation\<close>

lemma mset_pools:
  "mset (pools g) =
     mset (cards (shoe g)) + mset (discardPile (shoe g)) + mset (hand_cards (dealerHand g))
       + mset (concat (map hand_cards (playerHands g)))"
  by (simp add: pools_def held_def)

lemma conserved_cong:
  assumes "mset (pools g') = mset (pools g)"
    and "numberOfDecks (shoe g') = numberOfDecks (shoe g)"
  shows "conserved g' = conserved g"
proof -
  have len: "length (pools g') = length (pools g)"
    using assms(1) by (rule mset_eq_length)
  have "mset (map card_id (pools g')) = mset (map card_id (pools g))"
    using assms(1) by (metis mset_map)
  then have "distinct (map card_id (pools g')) = distinct (map card_id (pools g))"
    by (rule mset_eq_imp_distinct_iff)
  with len assms(2) show ?thesis
    by (simp add: conserved_def)
qed

lemma mset_concat_update:
  "i < length hs \<Longrightarrow>
     mset (concat (map hand_cards (hs[i := addCard c (hs ! i)])))
       = mset (concat (map hand_cards hs)) + {#c#}"
proof (induction hs arbitrary: i)
  case Nil
  then show ?case by simp
next
  case (Cons h hs)
  show ?case
  proof (cases i)
    case 0
    then show ?thesis by (simp add: addCard_def)
  next
    case (Suc j)
    with Cons.prems have "j < length hs" by simp
    from Cons.IH [OF this] Suc show ?thesis by simp
  qed
qed

lemma fold_addToDiscardPile:
  "fold (\<lambda>h. addToDiscardPile (Many (hand_cards h))) hs s
     = s\<lparr>discardPile := discardPile s @ concat (map hand_cards hs)\<rparr>"
  by (induction hs arbitrary: s) simp_all

lemma endHand_fields:
  "shoe (endHand i g) = shoe g"
  "dealerHand (endHand i g) = dealerHand g"
  "playerHands (endHand i g) = playerHands g"
  by (simp_all add: endHand_def)

lemma dealerPlay_conserved:
  assumes "conserved g" and "cards (shoe g) \<noteq> [] \<or> discardPile (shoe g) \<noteq> []"
  shows "conserved (snd (dealerPlay g))"
proof -
  from deal_conserve [OF assms(2)] obtain c sh where
    d: "deal (shoe g) = (Some c, sh)"
    and m: "mset (cards sh) + mset (discardPile sh) + {#c#}
              = mset (cards (shoe g)) + mset (discardPile (shoe g))"
    and n: "numberOfDecks sh = numberOfDecks (shoe g)"
    by blast
  let ?g = "g\<lparr>shoe := sh, dealerHand := addCard c (dealerHand g)\<rparr>"
  have r: "snd (dealerPlay g) = ?g"
    using d by (simp add: dealerPlay_def)
  have "mset (pools ?g) = mset (pools g)"
    using m [symmetric] by (simp add: mset_pools addCard_def)
  moreover have "numberOfDecks (shoe ?g) = numberOfDecks (shoe g)"
    using n by simp
  ultimately have "conserved ?g = conserved g"
    by (rule conserved_cong)
  with assms(1) r show ?thesis by simp
qed

lemma hit_conserved:
  assumes "conserved g" and "i < length (playerHands g)"
    and "cards (shoe g) \<noteq> [] \<or> discardPile (shoe g) \<noteq> []"
  shows "conserved (snd (hit i g))"
proof -
  from deal_conserve [OF assms(3)] obtain c sh where
    d: "deal (shoe g) = (Some c, sh)"
    and m: "mset (cards sh) + mset (discardPile sh) + {#c#}
              = mset (cards (shoe g)) + mset (discardPile (shoe g))"
    and n: "numberOfDecks sh = numberOfDecks (shoe g)"
    by blast
  let ?g = "g\<lparr>shoe := sh,
               playerHands := (playerHands g)[i := addCard c (playerHands g ! i)]\<rparr>"
  have r: "snd (hit i g) = ?g \<or> snd (hit i g) = endHand i ?g"
    using d assms(2) by (simp add: hit_def Let_def)
  have p: "mset (pools ?g) = mset (pools g)"
    using m [symmetric] mset_concat_update [OF assms(2), of c] by (simp add: mset_pools)
  have q: "numberOfDecks (shoe ?g) = numberOfDecks (shoe g)"
    using n by simp
  have "conserved ?g = conserved g"
    using p q by (rule conserved_cong)
  moreover have "conserved (endHand i ?g) = conserved ?g"
    by (rule conserved_cong) (simp_all add: mset_pools endHand_fields)
  ultimately show ?thesis
    using assms(1) r by auto
qed

lemma settleAllHands_conserved:
  assumes "conserved g"
  shows "conserved (settleAllHands g)"
proof -
  have "conserved (settleAllHands g) = conserved g"
    by (rule conserved_cong)
       (simp_all add: settleAllHands_def Let_def mset_pools fold_addToDiscardPile endRound_def
          Hand_new_def)
  with assms show ?thesis by simp
qed

lemma mset_filter_split:
  "mset (filter P xs) + mset (filter (\<lambda>x. \<not> P x) xs) = mset xs"
  by (induction xs) simp_all

lemma held_retire:
  "held (g\<lparr>shoe := sh, dealerHand := retire P (dealerHand g),
           playerHands := map (retire P) (playerHands g)\<rparr>)
     = filter (\<lambda>c. \<not> P c) (held g)"
  by (simp add: held_def retire_def filter_concat comp_def)

lemma retired_conserved:
  assumes "discardPile sh = discardPile (shoe g) @ filter P (held g)"
    and "cards sh = cards (shoe g)" and "numberOfDecks sh = numberOfDecks (shoe g)"
  shows "conserved (g\<lparr>shoe := sh, dealerHand := retire P (dealerHand g),
                     playerHands := map (retire P) (playerHands g)\<rparr>) = conserved g"
proof (rule conserved_cong)
  let ?g = "g\<lparr>shoe := sh, dealerHand := retire P (dealerHand g),
              playerHands := map (retire P) (playerHands g)\<rparr>"
  have "mset (pools ?g)
          = mset (cards (shoe g)) + mset (discardPile (shoe g))
              + (mset (filter P (held g)) + mset (filter (\<lambda>c. \<not> P c) (held g)))"
    using assms(1,2) held_retire [where g = g and sh = sh and P = P] by (simp add: pools_def)
  also have "\<dots> = mset (pools g)"
    by (simp only: mset_filter_split) (simp add: pools_def)
  finally show "mset (pools ?g) = mset (pools g)" .
  show "numberOfDecks (shoe ?g) = numberOfDecks (shoe g)"
    using assms(3) by simp
qed

lemma discardHeld_conserved: "conserved (discardHeld ids g) = conserved g"
  unfolding discardHeld_def Let_def by (rule retired_conserved) simp_all

lemma discardHeldCard_conserved: "conserved (discardHeldCard n g) = conserved g"
proof (cases "\<exists>c. filter (\<lambda>c. card_id c = n) (held g) = [c]")
  case True
  then obtain c where c: "filter (\<lambda>c. card_id c = n) (held g) = [c]" by blast
  have "discardHeldCard n g
          = g\<lparr>shoe := addToDiscardPile (One c) (shoe g),
               dealerHand := retire (\<lambda>c. card_id c = n) (dealerHand g),
               playerHands := map (retire (\<lambda>c. card_id c = n)) (playerHands g)\<rparr>"
    by (simp add: discardHeldCard_def Let_def c)
  moreover have "conserved \<dots> = conserved g"
    by (rule retired_conserved) (simp_all add: c)
  ultimately show ?thesis by simp
next
  case False
  then have "discardHeldCard n g = g"
    by (auto simp: discardHeldCard_def Let_def split: list.splits)
  then show ?thesis by simp
qed

lemma step_conserved: "conserved g \<Longrightarrow> supplied g x \<Longrightarrow> conserved (step g x)"
proof (cases x)
  case StartRound
  assume "conserved g"
  moreover have "conserved (step g x) = conserved g"
    unfolding StartRound by (rule conserved_cong) (simp_all add: mset_pools startRound_def)
  ultimately show ?thesis by simp
next
  case EndRound
  assume "conserved g"
  moreover have "conserved (step g x) = conserved g"
    unfolding EndRound by (rule conserved_cong) (simp_all add: mset_pools endRound_def)
  ultimately show ?thesis by simp
next
  case DealerPlay
  assume "conserved g" "supplied g x"
  with DealerPlay show ?thesis by (simp add: dealerPlay_conserved)
next
  case (Hit i)
  assume "conserved g" "supplied g x"
  with Hit show ?thesis by (simp add: hit_conserved)
next
  case (AddToDiscardPile ids)
  assume "conserved g"
  with AddToDiscardPile show ?thesis by (simp add: discardHeld_conserved)
next
  case (AddCardToDiscardPile n)
  assume "conserved g"
  with AddCardToDiscardPile show ?thesis by (simp add: discardHeldCard_conserved)
next
  case SettleAllHands
  assume "conserved g"
  with SettleAllHands show ?thesis by (simp add: settleAllHands_conserved)
qed

lemma run_conserved: "conserved g \<Longrightarrow> run_supplied g xs \<Longrightarrow> conserved (run g xs)"
  by (induction xs arbitrary: g) (simp_all add: step_conserved)

lemma run_supplied_take: "run_supplied g xs \<Longrightarrow> run_supplied g (take k xs)"
proof (induction xs arbitrary: g k)
  case Nil
  then show ?case by simp
next
  case (Cons x xs)
  then show ?case by (cases k) simp_all
qed

lemma Blackjack_new_conserved: "conserved (Blackjack_new d s17 sur ch n0 rnd)"
  by (simp add: conserved_def pools_def held_def Blackjack_new_def Hand_new_def
      Shoe_new_fields Shoe_new_distinct)

lemma exhausted_deal_not_conserved:
  assumes "conserved g" and "cards (shoe g) = []" and "discardPile (shoe g) = []"
    and "1 \<le> numberOfDecks (shoe g)"
  shows "\<not> conserved (snd (dealerPlay g))"
proof -
  from deal_reinitialize [OF assms(2,3,4)] obtain c sh where
    d: "deal (shoe g) = (Some c, sh)"
    and m: "mset (map card_id (cards sh @ discardPile sh @ [c]))
              = mset [nextId (shoe g)..<nextId (shoe g) + 52 * numberOfDecks (shoe g)]"
    and n: "numberOfDecks sh = numberOfDecks (shoe g)"
    by blast
  from mset_eq_length [OF m]
  have fresh: "length (cards sh) + length (discardPile sh) + 1 = 52 * numberOfDecks (shoe g)"
    by simp
  from assms(1,2,3) have old: "length (held g) = 52 * numberOfDecks (shoe g)"
    by (simp add: conserved_def pools_def)
  have r: "snd (dealerPlay g) = g\<lparr>shoe := sh, dealerHand := addCard c (dealerHand g)\<rparr>"
    using d by (simp add: dealerPlay_def)
  have "length (pools (snd (dealerPlay g))) = length (cards sh) + length (discardPile sh) + 1
          + length (held g)"
    by (simp add: r pools_def held_def addCard_def)
  with fresh old assms(4) n show ?thesis
    by (simp add: conserved_def r)
qed

text \<open>
  C2, as the code has it. In a game created with any number of decks, after every prefix
  of a sequence of round markers, cards dealt to the dealer or to an existing player hand,
  calls of \<^verbatim>\<open>addToDiscardPile\<close> on cards retired from the hands (an array or one
  card, with the round open or closed) and settlements, in which no card is asked of a
  shoe that is empty together with its discard pile, the shoe, the discard pile and the
  hands hold 52 cards per deck between them, with pairwise distinct ids.
\<close>

theorem conserved_while_supplied:
  assumes "run_supplied (Blackjack_new d s17 sur ch n0 rnd) xs"
  shows "conserved (run (Blackjack_new d s17 sur ch n0 rnd) (take k xs))"
  using Blackjack_new_conserved run_supplied_take [OF assms] by (rule run_conserved)

theorem conserved_while_supplied_witness:
  "run_supplied (Blackjack_new 1 True True 1000 1 id)
     (StartRound # replicate 52 DealerPlay
        @ [AddToDiscardPile [1, 2, 3], DealerPlay, AddCardToDiscardPile 4, SettleAllHands,
           Hit 0])
   \<and> conserved (run (Blackjack_new 1 True True 1000 1 id)
        (take 58 (StartRound # replicate 52 DealerPlay
           @ [AddToDiscardPile [1, 2, 3], DealerPlay, AddCardToDiscardPile 4, SettleAllHands,
              Hit 0])))"
proof -
  have h: "run_supplied (Blackjack_new 1 True True 1000 1 id)
     (StartRound # replicate 52 DealerPlay
        @ [AddToDiscardPile [1, 2, 3], DealerPlay, AddCardToDiscardPile 4, SettleAllHands,
           Hit 0])"
    by code_simp
  from h conserved_while_supplied [OF h, of 58] show ?thesis
    by (rule conjI)
qed

text \<open>
  The run of the instance above passes through the duplicate branch of the dealing loop:
  the whole deck is dealt in one round, three of the dealt cards are retired with the
  round still open, and the next call finds them as the only cards to deal. All three
  have been dealt this round, so the loop moves each to the discard pile, and the call
  refills the shoe from it and hands one of them out: two cards in the shoe, none in the
  discard pile, fifty in the dealer's hand.
\<close>

lemma duplicates_recycled:
  "length (cards (shoe (run (Blackjack_new 1 True True 1000 1 id)
       (StartRound # replicate 52 DealerPlay @ [AddToDiscardPile [1, 2, 3], DealerPlay])))) = 2
   \<and> discardPile (shoe (run (Blackjack_new 1 True True 1000 1 id)
       (StartRound # replicate 52 DealerPlay @ [AddToDiscardPile [1, 2, 3], DealerPlay]))) = []
   \<and> length (held (run (Blackjack_new 1 True True 1000 1 id)
       (StartRound # replicate 52 DealerPlay @ [AddToDiscardPile [1, 2, 3], DealerPlay]))) = 50"
  by code_simp

text \<open>
  C2 as stated fails, in two ways. In a one-deck game, 52 cards dealt to the dealer leave
  the count at 52, and the 53rd call finds the shoe and the discard pile empty, rebuilds
  the shoe from 52 new cards and brings the count to 104. And \<^verbatim>\<open>addToDiscardPile\<close>
  on its own leaves the hands alone: called with the dealer's card while the dealer still
  holds it, it puts the same id in two pools.
\<close>

theorem conservation_fails:
  "conserved (run (Blackjack_new 1 True True 1000 1 id) (replicate 52 DealerPlay))
   \<and> \<not> conserved (run (Blackjack_new 1 True True 1000 1 id) (replicate 53 DealerPlay))
   \<and> conserved (run (Blackjack_new 1 True True 1000 1 id) [DealerPlay])
   \<and> \<not> conserved ((run (Blackjack_new 1 True True 1000 1 id) [DealerPlay])
         \<lparr>shoe := addToDiscardPile
            (Many (hand_cards (dealerHand (run (Blackjack_new 1 True True 1000 1 id) [DealerPlay]))))
            (shoe (run (Blackjack_new 1 True True 1000 1 id) [DealerPlay]))\<rparr>)"
  by code_simp

end
